theory Spec2Isabelle
  imports Complex_Main "HOL-Library.Multiset"
begin

section \<open>Data model\<close>

text \<open>
  The job of \<^verbatim>\<open>src/index.ts\<close> recomputes, for every entry of a fantasy-football
  pool, the summed statistics of the footballers the entry picked, and then ranks the
  entries of each pool. The types below follow the objects the source handles.

  Numbers: \<^verbatim>\<open>goals_scored\<close>, \<^verbatim>\<open>own_goals\<close>, the entry totals and the ranks are
  integers in the data; they are modelled as unbounded \<open>int\<close> and \<open>nat\<close> (a JavaScript
  number is exact on integers below \<open>2^53\<close>). \<^verbatim>\<open>expected_goals\<close> is a binary
  floating-point number in the source; here it is a \<open>real\<close>, sums are exact and
  \<^verbatim>\<open>toFixed(2)\<close> rounds to the nearest hundredth. No theorem below relies on how
  a sum of expected goals is rounded.
\<close>

type_synonym ident = int

type_synonym timestamp = nat

datatype EntryStatus = ACTIVE | BUST | WINNER | SHORT

text \<open>\<^verbatim>\<open>type Player = { id, goals_scored, own_goals, expected_goals }\<close>\<close>

record Player =
  player_id :: int
  goals_scored :: int
  player_own_goals :: int
  player_expected_goals :: real

text \<open>
  The tables are declared by the Prisma schema of the repository (\<^verbatim>\<open>model Entry\<close>,
  \<^verbatim>\<open>model Pool\<close>, \<^verbatim>\<open>model Rules\<close>). The ids of entries and pools are strings
  there; the source only compares them, and they are numbered here. A point in time is a
  number.

  The pool as \<^verbatim>\<open>fetchAllEntries\<close> includes it in an entry: its id and
  \<^verbatim>\<open>rules.own_goals\<close> (the relation \<^verbatim>\<open>rules\<close> of a pool is mandatory).
\<close>

record Pool =
  pool_id :: ident
  rules_own_goals :: bool

text \<open>
  An entry as \<^verbatim>\<open>fetchAllEntries\<close> returns it: the row of the entry table with
  the ids of its footballers and its pool, if it has one. The schema declares
  \<^verbatim>\<open>updatedAt DateTime @updatedAt\<close>: this column is set to the current time by
  every update of the row. The columns the job neither reads nor writes
  (\<^verbatim>\<open>profileId\<close>, \<^verbatim>\<open>season\<close>, \<^verbatim>\<open>paid_entry\<close>, \<^verbatim>\<open>createdAt\<close>, ...) live in
  the extension part of the record.
\<close>

record Entry =
  entry_id :: ident
  footballers :: "int list"
  pool :: "Pool option"
  goals :: int
  own_goals :: int
  net_goals :: int
  expected_goals :: real
  all_scored :: bool
  status :: EntryStatus
  rank :: "nat option"
  updatedAt :: timestamp

section \<open>The store\<close>

text \<open>
  Modelled from the spec: the module \<^verbatim>\<open>utils/prisma/client\<close>, which builds the
  Prisma client, is not among the sources. Section 6 of the specification gives the store
  two update operations,
  \<^verbatim>\<open>updateEntry(id, { goals, own_goals, net_goals, expected_goals, all_scored, status })\<close>
  and \<^verbatim>\<open>updateEntry(id, { rank })\<close>, and section 7 lets a write fail.

  The entry table is the list of its rows, in the order \<^verbatim>\<open>findMany\<close> returns
  them. \<open>calls\<close> counts the \<^verbatim>\<open>prisma.entry.update\<close> calls issued so far, and
  \<open>clock\<close> gives the time at which the call with a given number is made. An update
  changes, in the row with the given id, the fields named in its data and, as the schema
  has it, \<open>updatedAt\<close>. It is rejected when no row has the id, or when the store fails
  for a reason of its own: the environment is a function \<open>fails\<close> that tells, for the
  number of the call and the id it addresses, whether the store rejects it.
\<close>

record 'a Db =
  rows :: "'a Entry_scheme list"
  calls :: nat
  clock :: "nat \<Rightarrow> timestamp"

text \<open>
  What the source can throw: a rejected update (no such row, or a failure of the store), a
  TypeError of the ranking code, a failed fetch of the statistics and a failed read of
  the footballers or entries.
\<close>

datatype error = RecordNotFound | StoreFailure | TypeError | FetchFailure | LoadFailure

type_synonym env = "nat \<Rightarrow> ident \<Rightarrow> bool"

text \<open>The two shapes of \<^verbatim>\<open>data\<close> the source passes to \<^verbatim>\<open>prisma.entry.update\<close>.\<close>

record StatsData =
  data_goals :: int
  data_own_goals :: int
  data_net_goals :: int
  data_expected_goals :: real
  data_all_scored :: bool
  data_status :: EntryStatus

datatype UpdateData = Stats StatsData | Rank nat

fun applyData :: "timestamp \<Rightarrow> UpdateData \<Rightarrow> 'a Entry_scheme \<Rightarrow> 'a Entry_scheme" where
  "applyData now (Stats d) r =
     r\<lparr>goals := data_goals d, own_goals := data_own_goals d, net_goals := data_net_goals d,
       expected_goals := data_expected_goals d, all_scored := data_all_scored d,
       status := data_status d, updatedAt := now\<rparr>"
| "applyData now (Rank k) r = r\<lparr>rank := Some k, updatedAt := now\<rparr>"

text \<open>
  \<^verbatim>\<open>prisma.entry.update({ where: { id }, data })\<close>: the result is the error thrown,
  if any, and the store after the call.
\<close>

definition prisma_entry_update ::
  "env \<Rightarrow> ident \<Rightarrow> UpdateData \<Rightarrow> 'a Db \<Rightarrow> error option \<times> 'a Db" where
  "prisma_entry_update fails i d db =
     (let db1 = db\<lparr>calls := Suc (calls db)\<rparr> in
      if fails (calls db) i then (Some StoreFailure, db1)
      else if i \<notin> set (map entry_id (rows db)) then (Some RecordNotFound, db1)
      else (None, db1\<lparr>rows := map (\<lambda>r. if entry_id r = i then applyData (clock db (calls db)) d r
                                     else r) (rows db)\<rparr>))"

section \<open>Aggregation\<close>

text \<open>The four local variables of the loop over an entry's footballers.\<close>

record Locals =
  goalsVar :: int
  ownGoals :: int
  expectedGoals :: real
  allScored :: bool

text \<open>
  The body of \<^verbatim>\<open>for (const footballer of entry.footballers)\<close>:
  \<^verbatim>\<open>relevantPlayers.find\<close> gives the first player with the footballer's id.
\<close>

definition addFootballer :: "Player list \<Rightarrow> Locals \<Rightarrow> int \<Rightarrow> Locals" where
  "addFootballer relevantPlayers v footballer =
     (case find (\<lambda>p. player_id p = footballer) relevantPlayers of
        None \<Rightarrow> v
      | Some playerStats \<Rightarrow>
          \<lparr>goalsVar = goalsVar v + goals_scored playerStats,
           ownGoals = ownGoals v + player_own_goals playerStats,
           expectedGoals = expectedGoals v + player_expected_goals playerStats,
           allScored = (if goals_scored playerStats = 0 then False else allScored v)\<rparr>)"

fun sumFootballers :: "Player list \<Rightarrow> Locals \<Rightarrow> int list \<Rightarrow> Locals" where
  "sumFootballers relevantPlayers v [] = v"
| "sumFootballers relevantPlayers v (footballer # rest) =
     sumFootballers relevantPlayers (addFootballer relevantPlayers v footballer) rest"

text \<open>\<^verbatim>\<open>parseFloat(x.toFixed(2))\<close>: the nearest hundredth, a tie going away from zero.\<close>

definition toFixed2 :: "real \<Rightarrow> real" where
  "toFixed2 x =
     (if x < 0 then - (of_int \<lfloor>- x * 100 + 1 / 2\<rfloor> / 100)
      else of_int \<lfloor>x * 100 + 1 / 2\<rfloor> / 100)"

text \<open>The \<^verbatim>\<open>data\<close> object the source builds for one entry.\<close>

definition entryStatistics :: "'a Entry_scheme \<Rightarrow> Player list \<Rightarrow> StatsData" where
  "entryStatistics entry relevantPlayers =
     (let v = sumFootballers relevantPlayers
                \<lparr>goalsVar = 0, ownGoals = 0, expectedGoals = 0, allScored = True\<rparr>
                (footballers entry);
          netGoals = goalsVar v - ownGoals v;
          status = (if goalsVar v > 21 then BUST else if allScored v then ACTIVE else SHORT)
      in \<lparr>data_goals = goalsVar v, data_own_goals = ownGoals v, data_net_goals = netGoals,
          data_expected_goals = toFixed2 (expectedGoals v), data_all_scored = allScored v,
          data_status = status\<rparr>)"

text \<open>
  \<^verbatim>\<open>updateEntryStatistics\<close>: one update per entry, in order; an error of the update
  is caught (and logged), and the loop goes on with the next entry.
\<close>

fun updateEntryStatistics :: "env \<Rightarrow> 'b Entry_scheme list \<Rightarrow> Player list \<Rightarrow> 'a Db \<Rightarrow> 'a Db" where
  "updateEntryStatistics fails [] relevantPlayers db = db"
| "updateEntryStatistics fails (entry # entries) relevantPlayers db =
     (case prisma_entry_update fails (entry_id entry)
             (Stats (entryStatistics entry relevantPlayers)) db of
        (Some err, db') \<Rightarrow> updateEntryStatistics fails entries relevantPlayers db'
      | (None, db') \<Rightarrow> updateEntryStatistics fails entries relevantPlayers db')"

section \<open>Ranking\<close>

text \<open>
  \<^verbatim>\<open>poolsMap\<close> is a \<^verbatim>\<open>Map\<close> from pool ids to arrays of entries; a \<^verbatim>\<open>Map\<close>
  iterates in the order its keys were first set, so it is a list of pairs with a new key
  added at the end.
\<close>

type_synonym 'a poolsMap = "(ident \<times> 'a Entry_scheme list) list"

definition pushEntry :: "'a poolsMap \<Rightarrow> ident \<Rightarrow> 'a Entry_scheme \<Rightarrow> 'a poolsMap" where
  "pushEntry poolsMap k entry =
     (let m = (if k \<in> set (map fst poolsMap) then poolsMap else poolsMap @ [(k, [])])
      in map (\<lambda>(k', es). if k' = k then (k', es @ [entry]) else (k', es)) m)"

fun groupEntries :: "'a poolsMap \<Rightarrow> 'a Entry_scheme list \<Rightarrow> 'a poolsMap" where
  "groupEntries poolsMap [] = poolsMap"
| "groupEntries poolsMap (entry # entries) =
     (case pool entry of
        None \<Rightarrow> groupEntries poolsMap entries
      | Some p \<Rightarrow> groupEntries (pushEntry poolsMap (pool_id p) entry) entries)"

text \<open>The comparison function given to \<^verbatim>\<open>sort\<close>.\<close>

definition compareFn :: "bool \<Rightarrow> 'a Entry_scheme \<Rightarrow> 'a Entry_scheme \<Rightarrow> int" where
  "compareFn useNetGoals a b =
     (if useNetGoals then net_goals b - net_goals a else goals b - goals a)"

text \<open>
  \<^verbatim>\<open>Array.prototype.sort\<close> with a comparison function is a stable sort (ECMAScript
  2019, Node 11 and later; the image runs Node 18): \<open>a\<close> comes before \<open>b\<close> when
  \<open>cmp a b < 0\<close>, and elements that compare equal keep their order. Insertion from the
  right computes that order.
\<close>

fun insertCmp :: "('a \<Rightarrow> 'a \<Rightarrow> int) \<Rightarrow> 'a \<Rightarrow> 'a list \<Rightarrow> 'a list" where
  "insertCmp cmp x [] = [x]"
| "insertCmp cmp x (y # ys) = (if cmp x y \<le> 0 then x # y # ys else y # insertCmp cmp x ys)"

fun sortCmp :: "('a \<Rightarrow> 'a \<Rightarrow> int) \<Rightarrow> 'a list \<Rightarrow> 'a list" where
  "sortCmp cmp [] = []"
| "sortCmp cmp (x # xs) = insertCmp cmp x (sortCmp cmp xs)"

text \<open>
  The loop \<^verbatim>\<open>for (let i = 0; i < poolEntries.length; i++)\<close>: the first update that
  throws ends the loop, the updates before it stay in the store.
\<close>

fun writeRanks :: "env \<Rightarrow> nat \<Rightarrow> 'b Entry_scheme list \<Rightarrow> 'a Db \<Rightarrow> error option \<times> 'a Db" where
  "writeRanks fails i [] db = (None, db)"
| "writeRanks fails i (e # es) db =
     (case prisma_entry_update fails (entry_id e) (Rank (i + 1)) db of
        (Some err, db') \<Rightarrow> (Some err, db')
      | (None, db') \<Rightarrow> writeRanks fails (Suc i) es db')"

text \<open>
  The body of the \<^verbatim>\<open>try\<close> for one pool. \<^verbatim>\<open>poolEntries[0].pool.rules.own_goals\<close>
  throws a TypeError on an empty array or on an entry without pool.
\<close>

definition rankPool :: "env \<Rightarrow> 'b Entry_scheme list \<Rightarrow> 'a Db \<Rightarrow> error option \<times> 'a Db" where
  "rankPool fails poolEntries db =
     (case poolEntries of
        [] \<Rightarrow> (Some TypeError, db)
      | first # _ \<Rightarrow>
          (case pool first of
             None \<Rightarrow> (Some TypeError, db)
           | Some p \<Rightarrow>
               writeRanks fails 0 (sortCmp (compareFn (rules_own_goals p)) poolEntries) db))"

text \<open>The loop over \<^verbatim>\<open>poolsMap\<close>: an error of a pool is caught, the next pool follows.\<close>

fun rankPools :: "env \<Rightarrow> 'b poolsMap \<Rightarrow> 'a Db \<Rightarrow> 'a Db" where
  "rankPools fails [] db = db"
| "rankPools fails ((poolId, poolEntries) # rest) db =
     (case rankPool fails poolEntries db of
        (Some err, db') \<Rightarrow> rankPools fails rest db'
      | (None, db') \<Rightarrow> rankPools fails rest db')"

definition updateEntryRankings :: "env \<Rightarrow> 'b Entry_scheme list \<Rightarrow> 'a Db \<Rightarrow> 'a Db" where
  "updateEntryRankings fails entries db = rankPools fails (groupEntries [] entries) db"

section \<open>The run\<close>

text \<open>
  \<^verbatim>\<open>runGame\<close>. The footballer table and the answer of the statistics provider are
  inputs, each an error or a list; \<^verbatim>\<open>fetchAllEntries\<close> reads the rows of the entry
  table, unless the read itself fails (\<open>entriesError\<close>). Every error before the two
  passes is caught by \<^verbatim>\<open>runGame\<close> and ends the run with the store as it was.
  The same array \<^verbatim>\<open>entries\<close>, loaded before aggregation, is given to both passes.
\<close>

definition fetchAllEntries :: "'a Db \<Rightarrow> 'a Entry_scheme list" where
  "fetchAllEntries db = rows db"

definition runGame ::
  "env \<Rightarrow> error + int list \<Rightarrow> error + Player list \<Rightarrow> error option \<Rightarrow> 'a Db \<Rightarrow> 'a Db" where
  "runGame fails footballersResult fetchResult entriesError db =
     (case footballersResult of
        Inl err \<Rightarrow> db
      | Inr footballerIds \<Rightarrow>
          (case fetchResult of
             Inl err \<Rightarrow> db
           | Inr eplPlayers \<Rightarrow>
               (let relevantPlayers = filter (\<lambda>player. player_id player \<in> set footballerIds) eplPlayers
                in case entriesError of
                     Some err \<Rightarrow> db
                   | None \<Rightarrow>
                       (let entries = fetchAllEntries db
                        in if length entries = 0 then db
                           else updateEntryRankings fails entries
                                  (updateEntryStatistics fails entries relevantPlayers db)))))"

section \<open>Observations and notions used in the statements\<close>

text \<open>
  Reading the row with a given id back from the store (the first one, should an id occur
  twice), and the rank stored for an id.
\<close>

definition lookupEntry :: "'a Db \<Rightarrow> ident \<Rightarrow> 'a Entry_scheme option" where
  "lookupEntry db i = find (\<lambda>r. entry_id r = i) (rows db)"

definition storedRank :: "'a Db \<Rightarrow> ident \<Rightarrow> nat option" where
  "storedRank db i = (case lookupEntry db i of None \<Rightarrow> None | Some r \<Rightarrow> rank r)"

text \<open>Two environments: a store that never rejects an update, and one that rejects every
  update addressed to one id.\<close>

definition noFailure :: env where
  "noFailure = (\<lambda>n i. False)"

definition failsOn :: "ident \<Rightarrow> env" where
  "failsOn bad = (\<lambda>n i. i = bad)"

text \<open>
  The key the comparison function sorts by, and membership of an entry in a pool.
\<close>

definition rankKey :: "bool \<Rightarrow> 'a Entry_scheme \<Rightarrow> int" where
  "rankKey useNetGoals e = (if useNetGoals then net_goals e else goals e)"

definition inPool :: "ident \<Rightarrow> 'a Entry_scheme \<Rightarrow> bool" where
  "inPool pid e = (case pool e of None \<Rightarrow> False | Some p \<Rightarrow> pool_id p = pid)"

text \<open>
  Two rows that agree on every field except the six statistics fields, and two rows that
  agree on every field except \<open>rank\<close>: \<open>updatedAt\<close> and the extension part of the
  record are among the fields that have to agree.
\<close>

definition onlyStatsDiffer :: "'a Entry_scheme \<Rightarrow> 'a Entry_scheme \<Rightarrow> bool" where
  "onlyStatsDiffer r r' \<longleftrightarrow>
     r' = r\<lparr>goals := goals r', own_goals := own_goals r', net_goals := net_goals r',
            expected_goals := expected_goals r', all_scored := all_scored r',
            status := status r'\<rparr>"

definition onlyRankDiffers :: "'a Entry_scheme \<Rightarrow> 'a Entry_scheme \<Rightarrow> bool" where
  "onlyRankDiffers r r' \<longleftrightarrow> r' = r\<lparr>rank := rank r'\<rparr>"

text \<open>The same two relations with \<open>updatedAt\<close> free to differ as well.\<close>

definition statsFrame :: "'a Entry_scheme \<Rightarrow> 'a Entry_scheme \<Rightarrow> bool" where
  "statsFrame r r' \<longleftrightarrow>
     r' = r\<lparr>goals := goals r', own_goals := own_goals r', net_goals := net_goals r',
            expected_goals := expected_goals r', all_scored := all_scored r',
            status := status r', updatedAt := updatedAt r'\<rparr>"

definition rankFrame :: "'a Entry_scheme \<Rightarrow> 'a Entry_scheme \<Rightarrow> bool" where
  "rankFrame r r' \<longleftrightarrow> r' = r\<lparr>rank := rank r', updatedAt := updatedAt r'\<rparr>"

text \<open>A row with its \<open>updatedAt\<close> put aside, to compare rows up to the time of writing.\<close>

definition withoutTime :: "'a Entry_scheme \<Rightarrow> 'a Entry_scheme" where
  "withoutTime r = r\<lparr>updatedAt := 0\<rparr>"

section \<open>Example data\<close>

text \<open>
  A store with two pools and an entry without pool. Pool 1 ranks by \<open>goals\<close>, pool 2 by
  \<open>net_goals\<close>, and the two entries of pool 2 have the same stored \<open>net_goals\<close>. Every
  row was last written at time 0, and the update with number \<open>n\<close> is made at time
  \<open>100 + n\<close>.
\<close>

definition poolA :: Pool where
  "poolA = \<lparr>pool_id = 1, rules_own_goals = False\<rparr>"

definition poolB :: Pool where
  "poolB = \<lparr>pool_id = 2, rules_own_goals = True\<rparr>"

definition storedEntry :: "ident \<Rightarrow> int list \<Rightarrow> Pool option \<Rightarrow> int \<Rightarrow> int \<Rightarrow> Entry" where
  "storedEntry i fs p g og =
     \<lparr>entry_id = i, footballers = fs, pool = p, goals = g, own_goals = og, net_goals = g - og,
      expected_goals = 0, all_scored = True, status = ACTIVE, rank = None, updatedAt = 0\<rparr>"

definition playerStat :: "int \<Rightarrow> int \<Rightarrow> int \<Rightarrow> real \<Rightarrow> Player" where
  "playerStat i g og xg =
     \<lparr>player_id = i, goals_scored = g, player_own_goals = og, player_expected_goals = xg\<rparr>"

definition examplePlayers :: "Player list" where
  "examplePlayers = [playerStat 1 1 3 0.5, playerStat 2 7 0 1.25, playerStat 3 0 0 0.1]"

definition exampleRows :: "Entry list" where
  "exampleRows =
     [storedEntry 1 [1] (Some poolA) 10 0,
      storedEntry 2 [2] (Some poolA) 5 0,
      storedEntry 3 [3, 99] None 0 0,
      storedEntry 4 [2, 3] (Some poolB) 4 1,
      storedEntry 5 [2] (Some poolB) 6 3]"

definition exampleDb :: "unit Db" where
  "exampleDb = \<lparr>rows = exampleRows, calls = 0, clock = (\<lambda>n. 100 + n)\<rparr>"

definition poolAEntries :: "Entry list" where
  "poolAEntries = [storedEntry 1 [1] (Some poolA) 10 0, storedEntry 2 [2] (Some poolA) 5 0]"

definition poolBEntries :: "Entry list" where
  "poolBEntries = [storedEntry 4 [2, 3] (Some poolB) 4 1, storedEntry 5 [2] (Some poolB) 6 3]"

definition staleDb :: "unit Db" where
  "staleDb = \<lparr>rows = [storedEntry 1 [1] (Some poolA) 10 0, storedEntry 2 [2] (Some poolA) 5 0],
              calls = 0, clock = (\<lambda>n. 100 + n)\<rparr>"

lemmas example_defs =
  poolA_def poolB_def storedEntry_def playerStat_def examplePlayers_def exampleRows_def
  exampleDb_def failsOn_def noFailure_def

lemmas run_defs =
  prisma_entry_update_def entryStatistics_def addFootballer_def toFixed2_def
  lookupEntry_def storedRank_def Let_def

lemmas pass_defs =
  run_defs pushEntry_def updateEntryRankings_def rankPool_def compareFn_def runGame_def
  fetchAllEntries_def

section \<open>One update\<close>

lemma entry_id_applyData [simp]: "entry_id (applyData t d r) = entry_id r"
  by (cases d) simp_all

lemma footballers_applyData [simp]: "footballers (applyData t d r) = footballers r"
  by (cases d) simp_all

lemma pool_applyData [simp]: "pool (applyData t d r) = pool r"
  by (cases d) simp_all

lemma find_None_ids: "find (\<lambda>r. entry_id r = i) rs = None \<longleftrightarrow> i \<notin> entry_id ` set rs"
  by (auto simp: find_None_iff)

lemma rows_update:
  "rows (snd (prisma_entry_update fails i d db)) =
     (if fails (calls db) i then rows db
      else map (\<lambda>r. if entry_id r = i then applyData (clock db (calls db)) d r else r) (rows db))"
proof -
  have "i \<notin> entry_id ` set (rows db) \<Longrightarrow>
        map (\<lambda>r. if entry_id r = i then applyData t d r else r) (rows db) = rows db" for t
    by (rule map_idI) auto
  from this [of "clock db (calls db)"] show ?thesis
    by (auto simp: prisma_entry_update_def Let_def)
qed

lemma clock_update [simp]: "clock (snd (prisma_entry_update fails i d db)) = clock db"
  by (simp add: prisma_entry_update_def Let_def)

lemma calls_update [simp]: "calls (snd (prisma_entry_update fails i d db)) = Suc (calls db)"
  by (simp add: prisma_entry_update_def Let_def)

lemma ids_update [simp]:
  "map entry_id (rows (snd (prisma_entry_update fails i d db))) = map entry_id (rows db)"
  by (simp add: rows_update comp_def if_distrib cong: if_cong)

lemma lookup_update_other:
  "j \<noteq> i \<Longrightarrow> lookupEntry (snd (prisma_entry_update fails i d db)) j = lookupEntry db j"
proof -
  assume ji: "j \<noteq> i"
  have "find (\<lambda>r. entry_id r = j) (map (\<lambda>r. if entry_id r = i then applyData t d r else r) rs)
        = find (\<lambda>r. entry_id r = j) rs" for rs :: "'a Entry_scheme list" and t
    using ji by (induction rs) auto
  then show ?thesis
    by (simp add: lookupEntry_def rows_update)
qed

lemma lookup_update_hit:
  "\<not> fails (calls db) i \<Longrightarrow>
   lookupEntry (snd (prisma_entry_update fails i d db)) i =
     map_option (applyData (clock db (calls db)) d) (lookupEntry db i)"
proof -
  have "find (\<lambda>r. entry_id r = i) (map (\<lambda>r. if entry_id r = i then applyData t d r else r) rs)
        = map_option (applyData t d) (find (\<lambda>r. entry_id r = i) rs)"
    for rs :: "'a Entry_scheme list" and t
    by (induction rs) auto
  then show "\<not> fails (calls db) i \<Longrightarrow> ?thesis"
    by (simp add: lookupEntry_def rows_update)
qed

lemma update_ok_iff:
  "fst (prisma_entry_update fails i d db) = None \<longleftrightarrow>
     \<not> fails (calls db) i \<and> i \<in> entry_id ` set (rows db)"
  by (simp add: prisma_entry_update_def Let_def)

lemma lookup_None_iff: "lookupEntry db i = None \<longleftrightarrow> i \<notin> entry_id ` set (rows db)"
  by (simp add: lookupEntry_def find_None_ids)

lemma storedRank_update_hit:
  assumes "fst (prisma_entry_update fails i (Rank k) db) = None"
  shows "storedRank (snd (prisma_entry_update fails i (Rank k) db)) i = Some k"
proof -
  from assms have nf: "\<not> fails (calls db) i" and "i \<in> entry_id ` set (rows db)"
    by (simp_all add: update_ok_iff)
  then obtain r where "lookupEntry db i = Some r"
    by (cases "lookupEntry db i") (simp_all add: lookup_None_iff)
  with nf show ?thesis
    by (simp add: storedRank_def lookup_update_hit)
qed

section \<open>The aggregation pass and the store\<close>

lemma updateEntryStatistics_Cons:
  "updateEntryStatistics fails (entry # entries) rp db =
     updateEntryStatistics fails entries rp
       (snd (prisma_entry_update fails (entry_id entry) (Stats (entryStatistics entry rp)) db))"
  by (simp split: prod.splits option.splits)

lemma updateEntryStatistics_append:
  "updateEntryStatistics fails (es1 @ es2) rp db =
     updateEntryStatistics fails es2 rp (updateEntryStatistics fails es1 rp db)"
  by (induction es1 arbitrary: db) (simp_all only: updateEntryStatistics_Cons append.simps updateEntryStatistics.simps(1))

lemma calls_updateEntryStatistics:
  "calls (updateEntryStatistics fails es rp db) = calls db + length es"
  by (induction es arbitrary: db) (simp_all only: updateEntryStatistics_Cons updateEntryStatistics.simps(1) calls_update, simp_all)

lemma clock_updateEntryStatistics:
  "clock (updateEntryStatistics fails es rp db) = clock db"
  by (induction es arbitrary: db) (simp_all only: updateEntryStatistics_Cons updateEntryStatistics.simps(1) clock_update)

lemma ids_updateEntryStatistics:
  "map entry_id (rows (updateEntryStatistics fails es rp db)) = map entry_id (rows db)"
  by (induction es arbitrary: db) (simp_all only: updateEntryStatistics_Cons updateEntryStatistics.simps(1) ids_update)

lemma lookup_updateEntryStatistics_other:
  "i \<notin> entry_id ` set es \<Longrightarrow> lookupEntry (updateEntryStatistics fails es rp db) i = lookupEntry db i"
proof (induction es arbitrary: db)
  case Nil
  then show ?case by simp
next
  case (Cons e es)
  then have "i \<noteq> entry_id e" and "i \<notin> entry_id ` set es" by auto
  then show ?case
    using Cons.IH by (simp add: updateEntryStatistics_Cons lookup_update_other del: updateEntryStatistics.simps)
qed

lemma lookup_updateEntryStatistics_hit:
  assumes "entry_id e \<notin> entry_id ` set es1" and "entry_id e \<notin> entry_id ` set es2"
    and "\<not> fails (calls db + length es1) (entry_id e)"
  shows "lookupEntry (updateEntryStatistics fails (es1 @ e # es2) rp db) (entry_id e) =
           map_option (applyData (clock db (calls db + length es1)) (Stats (entryStatistics e rp)))
             (lookupEntry db (entry_id e))"
proof -
  let ?db1 = "updateEntryStatistics fails es1 rp db"
  let ?db2 = "snd (prisma_entry_update fails (entry_id e) (Stats (entryStatistics e rp)) ?db1)"
  have 1: "lookupEntry ?db1 (entry_id e) = lookupEntry db (entry_id e)"
    using assms(1) by (rule lookup_updateEntryStatistics_other)
  have "\<not> fails (calls ?db1) (entry_id e)"
    using assms(3) by (simp add: calls_updateEntryStatistics)
  then have "lookupEntry ?db2 (entry_id e) =
      map_option (applyData (clock ?db1 (calls ?db1)) (Stats (entryStatistics e rp)))
        (lookupEntry ?db1 (entry_id e))"
    by (rule lookup_update_hit)
  then have 2: "lookupEntry ?db2 (entry_id e) =
      map_option (applyData (clock db (calls db + length es1)) (Stats (entryStatistics e rp)))
        (lookupEntry ?db1 (entry_id e))"
    by (simp only: clock_updateEntryStatistics calls_updateEntryStatistics)
  have "updateEntryStatistics fails (es1 @ e # es2) rp db = updateEntryStatistics fails es2 rp ?db2"
    by (simp only: updateEntryStatistics_append updateEntryStatistics_Cons)
  then show ?thesis
    using lookup_updateEntryStatistics_other [OF assms(2), of fails rp ?db2] 1 2 by simp
qed

lemma rows_statistics_written:
  "list_all2 (\<lambda>r r'. r' = r \<or> (\<exists>e\<in>set es. \<exists>t. r' = applyData t (Stats (entryStatistics e rp)) r))
     (rows db) (rows (updateEntryStatistics fails es rp db))"
proof (induction es arbitrary: db)
  case Nil
  then show ?case by (simp add: list_all2_same)
next
  case (Cons e es)
  let ?d = "Stats (entryStatistics e rp)"
  let ?db1 = "snd (prisma_entry_update fails (entry_id e) ?d db)"
  have one: "list_all2 (\<lambda>r r1. r1 = r \<or> (\<exists>t. r1 = applyData t ?d r)) (rows db) (rows ?db1)"
    by (auto simp: rows_update list_all2_map2 list_all2_same simp del: applyData.simps)
  have rest: "list_all2 (\<lambda>r1 r'. r' = r1 \<or> (\<exists>x\<in>set es. \<exists>t. r' = applyData t (Stats (entryStatistics x rp)) r1))
     (rows ?db1) (rows (updateEntryStatistics fails es rp ?db1))"
    by (rule Cons.IH)
  show ?case
    unfolding updateEntryStatistics_Cons
  proof (rule list_all2_trans [OF _ one rest])
    fix a b c :: "'a Entry_scheme"
    assume "b = a \<or> (\<exists>t. b = applyData t ?d a)"
      and "c = b \<or> (\<exists>x\<in>set es. \<exists>t. c = applyData t (Stats (entryStatistics x rp)) b)"
    then show "c = a \<or> (\<exists>x\<in>set (e # es). \<exists>t. c = applyData t (Stats (entryStatistics x rp)) a)"
      by (elim disjE exE bexE) (simp_all, blast+)
  qed
qed

section \<open>The totals of an entry\<close>

lemma allScored_sumFootballers:
  "allScored (sumFootballers rp v fs) \<longleftrightarrow>
     allScored v \<and> (\<forall>f\<in>set fs. \<forall>ps. find (\<lambda>p. player_id p = f) rp = Some ps \<longrightarrow> goals_scored ps \<noteq> 0)"
  by (induction fs arbitrary: v) (auto simp: addFootballer_def split: option.splits)

lemma addFootballer_unmatched:
  "f \<notin> player_id ` set rp \<Longrightarrow> addFootballer rp v f = v"
proof -
  assume "f \<notin> player_id ` set rp"
  then have "find (\<lambda>p. player_id p = f) rp = None"
    by (auto simp: find_None_iff)
  then show ?thesis by (simp add: addFootballer_def)
qed

lemma sumFootballers_unmatched:
  "\<forall>f\<in>set fs. f \<notin> player_id ` set rp \<Longrightarrow> sumFootballers rp v fs = v"
  by (induction fs arbitrary: v) (simp_all add: addFootballer_unmatched)

lemma sumFootballers_filter_matched:
  "sumFootballers rp v (filter (\<lambda>f. f \<in> player_id ` set rp) fs) = sumFootballers rp v fs"
  by (induction fs arbitrary: v) (simp_all add: addFootballer_unmatched)

lemma find_first_part:
  "find P (xs @ ys) = (case find P xs of None \<Rightarrow> find P ys | Some x \<Rightarrow> Some x)"
  by (induction xs) simp_all

lemma find_later_duplicate:
  "player_id p \<in> player_id ` set ps \<Longrightarrow>
   find (\<lambda>q. player_id q = f) (ps @ p # qs) = find (\<lambda>q. player_id q = f) (ps @ qs)"
proof (cases "player_id p = f")
  case True
  assume "player_id p \<in> player_id ` set ps"
  with True have "find (\<lambda>q. player_id q = f) ps \<noteq> None"
    by (auto simp: find_None_iff)
  then show ?thesis
    by (auto simp: find_first_part)
next
  case False
  then show ?thesis
    by (simp add: find_first_part split: option.splits)
qed

lemma addFootballer_later_duplicate:
  "player_id p \<in> player_id ` set ps \<Longrightarrow>
   addFootballer (ps @ p # qs) v f = addFootballer (ps @ qs) v f"
  by (simp add: addFootballer_def find_later_duplicate)

lemma sumFootballers_later_duplicate:
  "player_id p \<in> player_id ` set ps \<Longrightarrow>
   sumFootballers (ps @ p # qs) v fs = sumFootballers (ps @ qs) v fs"
  by (induction fs arbitrary: v) (simp_all add: addFootballer_later_duplicate)

lemma toFixed2_zero: "toFixed2 0 = 0"
  by (simp add: toFixed2_def)

lemma entryStatistics_footballers:
  "footballers e = footballers e' \<Longrightarrow> entryStatistics e rp = entryStatistics e' rp"
  by (simp add: entryStatistics_def)

section \<open>The sort\<close>

text \<open>
  With the comparison function of the source, \<open>sortCmp\<close> is the stable sort of the
  library by the negated key. A sorted, stable permutation of a list is unique
  (\<open>sortCmp_unique\<close>), so every stable sort returns this list.
\<close>

lemma compareFn_rankKey: "compareFn u a b = rankKey u b - rankKey u a"
  by (simp add: compareFn_def rankKey_def)

lemma insertCmp_insort:
  "insertCmp (compareFn u) x xs = insort_key (\<lambda>e. - rankKey u e) x xs"
  by (induction xs) (simp_all add: compareFn_rankKey)

lemma sortCmp_sort_key:
  "sortCmp (compareFn u) xs = sort_key (\<lambda>e. - rankKey u e) xs"
  by (induction xs) (simp_all add: insertCmp_insort)

lemma mset_sortCmp: "mset (sortCmp (compareFn u) xs) = mset xs"
  by (simp add: sortCmp_sort_key)

lemma set_sortCmp: "set (sortCmp (compareFn u) xs) = set xs"
  by (simp add: sortCmp_sort_key)

lemma length_sortCmp: "length (sortCmp (compareFn u) xs) = length xs"
  by (simp add: sortCmp_sort_key)

lemma descending_sortCmp:
  "sorted_wrt (\<lambda>a b. rankKey u b \<le> rankKey u a) (sortCmp (compareFn u) xs)"
proof -
  have "sorted (map (\<lambda>e. - rankKey u e) (sort_key (\<lambda>e. - rankKey u e) xs))"
    by (rule sorted_sort_key)
  then show ?thesis
    by (simp add: sortCmp_sort_key sorted_map)
qed

lemma stable_sortCmp:
  "filter (\<lambda>e. rankKey u e = k) (sortCmp (compareFn u) xs) = filter (\<lambda>e. rankKey u e = k) xs"
proof -
  have "filter (\<lambda>e. - rankKey u e = - k) (sort_key (\<lambda>e. - rankKey u e) xs)
        = filter (\<lambda>e. - rankKey u e = - k) xs"
    by (rule sort_key_stable)
  then show ?thesis
    by (simp add: sortCmp_sort_key)
qed

lemma distinct_ids_sortCmp:
  "distinct (map entry_id (sortCmp (compareFn u) xs)) = distinct (map entry_id xs)"
proof -
  have "mset (map entry_id (sortCmp (compareFn u) xs)) = mset (map entry_id xs)"
    by (simp add: mset_sortCmp)
  then show ?thesis
    by (rule mset_eq_imp_distinct_iff)
qed

lemma sortCmp_unique:
  assumes "mset ys = mset xs"
    and "sorted_wrt (\<lambda>a b. rankKey u b \<le> rankKey u a) ys"
    and "\<And>k. filter (\<lambda>e. rankKey u e = k) ys = filter (\<lambda>e. rankKey u e = k) xs"
  shows "sortCmp (compareFn u) xs = ys"
proof -
  have "sort_key (\<lambda>e. - rankKey u e) xs = ys"
  proof (rule properties_for_sort_key)
    show "mset ys = mset xs" by (rule assms(1))
    show "sorted (map (\<lambda>e. - rankKey u e) ys)"
      using assms(2) by (simp add: sorted_map)
    show "filter (\<lambda>x. - rankKey u k = - rankKey u x) ys = filter (\<lambda>x. - rankKey u k = - rankKey u x) xs"
      for k
      using assms(3) [of "rankKey u k"] by (simp add: eq_commute)
  qed
  then show ?thesis by (simp add: sortCmp_sort_key)
qed

lemma filter_keeps_order:
  "filter Q l = us @ a # vs @ b # ws \<Longrightarrow> \<exists>l1 l2 l3. l = l1 @ a # l2 @ b # l3"
proof (induction l arbitrary: us)
  case Nil
  then show ?case by simp
next
  case (Cons x l)
  show ?case
  proof (cases "Q x")
    case False
    with Cons.prems have "filter Q l = us @ a # vs @ b # ws" by simp
    then obtain l1 l2 l3 where "l = l1 @ a # l2 @ b # l3"
      using Cons.IH by blast
    then have "x # l = (x # l1) @ a # l2 @ b # l3" by simp
    then show ?thesis by blast
  next
    case True
    with Cons.prems have eq: "x # filter Q l = us @ a # vs @ b # ws" by simp
    show ?thesis
    proof (cases us)
      case Nil
      with eq have "x = a" and "filter Q l = vs @ b # ws" by simp_all
      then have "b \<in> set l"
        by (metis filter_is_subset in_set_conv_decomp subsetD)
      then obtain m1 m2 where "l = m1 @ b # m2"
        by (auto simp: in_set_conv_decomp)
      with \<open>x = a\<close> have "x # l = [] @ a # m1 @ b # m2" by simp
      then show ?thesis by blast
    next
      case (Cons u us')
      with eq have "filter Q l = us' @ a # vs @ b # ws" by simp
      then obtain l1 l2 l3 where "l = l1 @ a # l2 @ b # l3"
        using Cons.IH by blast
      then have "x # l = (x # l1) @ a # l2 @ b # l3" by simp
      then show ?thesis by blast
    qed
  qed
qed

lemma tie_order_in_sorted:
  assumes "g = filter (inPool pid) (xs @ a # ys @ b # zs)"
    and "inPool pid a" and "inPool pid b" and "rankKey u a = rankKey u b"
  shows "\<exists>s1 s2 s3. sortCmp (compareFn u) g = s1 @ a # s2 @ b # s3"
proof -
  let ?K = "\<lambda>e. rankKey u e = rankKey u a"
  have "filter ?K (sortCmp (compareFn u) g) = filter ?K g"
    by (rule stable_sortCmp)
  also have "\<dots> = filter ?K (filter (inPool pid) xs) @ a #
                   filter ?K (filter (inPool pid) ys) @ b # filter ?K (filter (inPool pid) zs)"
    using assms by simp
  finally show ?thesis
    by (rule filter_keeps_order)
qed

section \<open>Grouping by pool\<close>

lemma keys_pushEntry:
  "map fst (pushEntry m k e) = (if k \<in> set (map fst m) then map fst m else map fst m @ [k])"
  by (auto simp: pushEntry_def Let_def comp_def case_prod_beta if_distrib cong: if_cong)

lemma map_of_push_map:
  "map_of (map (\<lambda>(k', es). if k' = k then (k', es @ [e]) else (k', es)) m) j =
     (if j = k then map_option (\<lambda>es. es @ [e]) (map_of m j) else map_of m j)"
  by (induction m) auto

lemma map_of_pushEntry:
  "map_of (pushEntry m k e) j =
     (if j = k then Some ((case map_of m k of None \<Rightarrow> [] | Some es \<Rightarrow> es) @ [e]) else map_of m j)"
proof (cases "k \<in> set (map fst m)")
  case True
  then obtain es where "map_of m k = Some es"
    by (metis map_of_eq_None_iff not_Some_eq set_map)
  with True show ?thesis
    by (simp add: pushEntry_def map_of_push_map)
next
  case False
  then have none: "map_of m k = None"
    by (simp add: map_of_eq_None_iff)
  have "map_of (m @ [(k, [])]) i = (if i = k then Some [] else map_of m i)" for i
    using none by (cases "map_of m i") (auto simp: map_add_def)
  then have "map_of (pushEntry m k e) j =
      (if j = k then map_option (\<lambda>es. es @ [e]) (Some []) else map_of m j)"
    using False unfolding pushEntry_def Let_def map_of_push_map by simp
  with none show ?thesis by simp
qed

lemma distinct_keys_pushEntry:
  "distinct (map fst m) \<Longrightarrow> distinct (map fst (pushEntry m k e))"
  by (simp add: keys_pushEntry)

lemma distinct_keys_groupEntries:
  "distinct (map fst m) \<Longrightarrow> distinct (map fst (groupEntries m es))"
  by (induction es arbitrary: m) (auto simp: distinct_keys_pushEntry split: option.splits)

lemma map_of_groupEntries:
  "map_of (groupEntries m es) pid =
     (if map_of m pid = None \<and> filter (inPool pid) es = [] then None
      else Some ((case map_of m pid of None \<Rightarrow> [] | Some g \<Rightarrow> g) @ filter (inPool pid) es))"
proof (induction es arbitrary: m)
  case Nil
  then show ?case by (auto split: option.splits)
next
  case (Cons e es)
  show ?case
  proof (cases "pool e")
    case None
    then have "\<not> inPool pid e" by (simp add: inPool_def)
    with None show ?thesis by (simp add: Cons.IH)
  next
    case (Some p)
    then have "inPool pid e \<longleftrightarrow> pool_id p = pid" by (simp add: inPool_def)
    with Some show ?thesis
      by (auto simp: Cons.IH map_of_pushEntry split: option.splits)
  qed
qed

lemma group_members:
  assumes "(pid, g) \<in> set (groupEntries [] es)"
  shows "g = filter (inPool pid) es" and "g \<noteq> []"
proof -
  have "distinct (map fst (groupEntries [] es))"
    by (rule distinct_keys_groupEntries) simp
  with assms have "map_of (groupEntries [] es) pid = Some g"
    by simp
  then show "g = filter (inPool pid) es" and "g \<noteq> []"
    by (auto simp: map_of_groupEntries split: if_splits)
qed

lemma groups_disjoint:
  assumes "distinct (map entry_id es)"
    and "(pid, g) \<in> set (groupEntries [] es)" and "(pid', g') \<in> set (groupEntries [] es)"
    and "pid \<noteq> pid'"
  shows "entry_id ` set g \<inter> entry_id ` set g' = {}"
proof -
  have g: "g = filter (inPool pid) es" and g': "g' = filter (inPool pid') es"
    using assms(2,3) by (simp_all add: group_members)
  have inj: "inj_on entry_id (set es)"
    using assms(1) by (simp add: distinct_map)
  show ?thesis
  proof (rule ccontr)
    assume "entry_id ` set g \<inter> entry_id ` set g' \<noteq> {}"
    then obtain a b where "a \<in> set g" "b \<in> set g'" "entry_id a = entry_id b"
      by auto
    with g g' have "a \<in> set es" "b \<in> set es" "inPool pid a" "inPool pid' b"
      by auto
    with inj \<open>entry_id a = entry_id b\<close> have "a = b"
      by (auto dest: inj_onD)
    with \<open>inPool pid a\<close> \<open>inPool pid' b\<close> assms(4) show False
      by (auto simp: inPool_def split: option.splits)
  qed
qed


section \<open>The ranking pass and the store\<close>

lemma writeRanks_Cons:
  "writeRanks fails i (e # es) db =
     (if fst (prisma_entry_update fails (entry_id e) (Rank (i + 1)) db) = None
      then writeRanks fails (Suc i) es (snd (prisma_entry_update fails (entry_id e) (Rank (i + 1)) db))
      else prisma_entry_update fails (entry_id e) (Rank (i + 1)) db)"
  by (cases "prisma_entry_update fails (entry_id e) (Rank (i + 1)) db")
     (auto split: option.splits)

lemma lookup_writeRanks_other:
  "j \<notin> entry_id ` set es \<Longrightarrow> lookupEntry (snd (writeRanks fails i es db)) j = lookupEntry db j"
proof (induction es arbitrary: i db)
  case Nil
  then show ?case by simp
next
  case (Cons e es)
  then have "j \<noteq> entry_id e" and "j \<notin> entry_id ` set es" by auto
  then show ?case
    using Cons.IH by (simp add: writeRanks_Cons lookup_update_other del: writeRanks.simps)
qed

lemma ids_writeRanks:
  "map entry_id (rows (snd (writeRanks fails i es db))) = map entry_id (rows db)"
  by (induction es arbitrary: i db) (simp_all add: writeRanks_Cons del: writeRanks.simps(2))

lemma storedRank_writeRanks:
  assumes "fst (writeRanks fails i es db) = None" and "distinct (map entry_id es)"
    and "k < length es"
  shows "storedRank (snd (writeRanks fails i es db)) (entry_id (es ! k)) = Some (i + k + 1)"
  using assms
proof (induction es arbitrary: i db k)
  case Nil
  then show ?case by simp
next
  case (Cons e es)
  let ?u = "prisma_entry_update fails (entry_id e) (Rank (i + 1)) db"
  from Cons.prems(1) have ok: "fst ?u = None"
    by (simp add: writeRanks_Cons del: writeRanks.simps split: if_splits)
  then have step: "writeRanks fails i (e # es) db = writeRanks fails (Suc i) es (snd ?u)"
    by (simp add: writeRanks_Cons del: writeRanks.simps)
  show ?case
  proof (cases k)
    case 0
    from Cons.prems(2) have "entry_id e \<notin> entry_id ` set es" by simp
    then have "lookupEntry (snd (writeRanks fails (Suc i) es (snd ?u))) (entry_id e)
               = lookupEntry (snd ?u) (entry_id e)"
      by (rule lookup_writeRanks_other)
    then have "storedRank (snd (writeRanks fails (Suc i) es (snd ?u))) (entry_id e)
               = storedRank (snd ?u) (entry_id e)"
      by (simp add: storedRank_def)
    with ok 0 step show ?thesis
      by (simp add: storedRank_update_hit del: writeRanks.simps)
  next
    case (Suc k')
    from Cons.prems step have "fst (writeRanks fails (Suc i) es (snd ?u)) = None"
      and "distinct (map entry_id es)" and "k' < length es"
      using Suc by simp_all
    then have "storedRank (snd (writeRanks fails (Suc i) es (snd ?u))) (entry_id (es ! k'))
               = Some (Suc i + k' + 1)"
      by (rule Cons.IH)
    with step Suc show ?thesis by (simp del: writeRanks.simps)
  qed
qed

lemma writeRanks_ok:
  assumes "\<forall>n. \<forall>e\<in>set es. \<not> fails n (entry_id e)"
    and "entry_id ` set es \<subseteq> entry_id ` set (rows db)"
  shows "fst (writeRanks fails i es db) = None"
  using assms
proof (induction es arbitrary: i db)
  case Nil
  then show ?case by simp
next
  case (Cons e es)
  let ?u = "prisma_entry_update fails (entry_id e) (Rank (i + 1)) db"
  from Cons.prems have ok: "fst ?u = None"
    by (simp add: update_ok_iff)
  have "entry_id ` set (rows (snd ?u)) = entry_id ` set (rows db)"
    using ids_update [of fails "entry_id e" "Rank (i + 1)" db]
    by (metis list.set_map)
  with Cons.prems have "fst (writeRanks fails (Suc i) es (snd ?u)) = None"
    by (intro Cons.IH) auto
  with ok show ?case
    by (simp add: writeRanks_Cons del: writeRanks.simps)
qed

lemma lookup_rankPool_other:
  "j \<notin> entry_id ` set g \<Longrightarrow> lookupEntry (snd (rankPool fails g db)) j = lookupEntry db j"
  by (auto simp: rankPool_def lookup_writeRanks_other set_sortCmp split: list.splits option.splits)

lemma ids_rankPool:
  "map entry_id (rows (snd (rankPool fails g db))) = map entry_id (rows db)"
  by (simp add: rankPool_def ids_writeRanks split: list.splits option.splits)

lemma rankPool_success:
  assumes "fst (rankPool fails g db) = None"
  obtains first rest p where "g = first # rest" and "pool first = Some p"
    and "rankPool fails g db = writeRanks fails 0 (sortCmp (compareFn (rules_own_goals p)) g) db"
  using assms by (auto simp: rankPool_def split: list.splits option.splits)

lemma rankPools_Cons:
  "rankPools fails ((pid, g) # rest) db = rankPools fails rest (snd (rankPool fails g db))"
  by (cases "rankPool fails g db") (auto split: option.splits)

lemma rankPools_append:
  "rankPools fails (gs1 @ gs2) db = rankPools fails gs2 (rankPools fails gs1 db)"
  by (induction gs1 arbitrary: db) (auto simp: rankPools_Cons simp del: rankPools.simps(2))

lemma lookup_rankPools_other:
  "\<forall>(pid, g)\<in>set gs. j \<notin> entry_id ` set g \<Longrightarrow>
   lookupEntry (rankPools fails gs db) j = lookupEntry db j"
proof (induction gs arbitrary: db)
  case Nil
  then show ?case by simp
next
  case (Cons a gs)
  obtain pid g where a: "a = (pid, g)" by (cases a)
  with Cons.prems have "j \<notin> entry_id ` set g" and "\<forall>(pid, g)\<in>set gs. j \<notin> entry_id ` set g"
    by auto
  then show ?case
    using Cons.IH a by (simp add: rankPools_Cons lookup_rankPool_other del: rankPools.simps)
qed

lemma ids_rankPools:
  "map entry_id (rows (rankPools fails gs db)) = map entry_id (rows db)"
proof (induction gs arbitrary: db)
  case Nil
  then show ?case by simp
next
  case (Cons a gs)
  obtain pid g where a: "a = (pid, g)" by (cases a)
  show ?case
    unfolding a rankPools_Cons by (simp only: Cons.IH ids_rankPool)
qed

lemma ranks_of_successful_pool:
  assumes dist: "distinct (map entry_id entries)"
    and split: "groupEntries [] entries = gs1 @ (pid, g) # gs2"
    and ok: "fst (rankPool fails g (rankPools fails gs1 db)) = None"
  obtains first rest p where "g = first # rest" and "pool first = Some p"
    and "\<forall>k<length g.
           storedRank (updateEntryRankings fails entries db)
             (entry_id (sortCmp (compareFn (rules_own_goals p)) g ! k)) = Some (k + 1)"
proof -
  let ?db1 = "rankPools fails gs1 db"
  from ok obtain first rest p where g: "g = first # rest" and p: "pool first = Some p"
    and rp: "rankPool fails g ?db1 = writeRanks fails 0 (sortCmp (compareFn (rules_own_goals p)) g) ?db1"
    by (rule rankPool_success)
  let ?sorted = "sortCmp (compareFn (rules_own_goals p)) g"
  let ?db2 = "snd (rankPool fails g ?db1)"
  have mem: "(pid, g) \<in> set (groupEntries [] entries)"
    by (simp add: split)
  then have gfil: "g = filter (inPool pid) entries"
    by (rule group_members)
  have "distinct (map entry_id g)"
    unfolding gfil using dist by (simp add: distinct_map_filter)
  then have ds: "distinct (map entry_id ?sorted)"
    by (simp add: distinct_ids_sortCmp)
  have keys: "distinct (map fst (groupEntries [] entries))"
    by (rule distinct_keys_groupEntries) simp
  have final: "updateEntryRankings fails entries db = rankPools fails gs2 ?db2"
    by (simp add: updateEntryRankings_def split rankPools_append rankPools_Cons del: rankPools.simps)
  have "storedRank (updateEntryRankings fails entries db) (entry_id (?sorted ! k)) = Some (k + 1)"
    if k: "k < length g" for k
  proof -
    have k': "k < length ?sorted" using k by (simp add: length_sortCmp)
    then have "?sorted ! k \<in> set g"
      by (metis nth_mem set_sortCmp)
    then have idg: "entry_id (?sorted ! k) \<in> entry_id ` set g" by simp
    have "\<forall>(pid', g')\<in>set gs2. entry_id (?sorted ! k) \<notin> entry_id ` set g'"
    proof (clarify)
      fix pid' g' x
      assume in2: "(pid', g') \<in> set gs2" and x: "x \<in> set g'" "entry_id (?sorted ! k) = entry_id x"
      from in2 have mem': "(pid', g') \<in> set (groupEntries [] entries)"
        by (simp add: split)
      from in2 keys have "pid \<noteq> pid'"
        unfolding split by force
      with dist mem mem' have "entry_id ` set g \<inter> entry_id ` set g' = {}"
        by (rule groups_disjoint)
      with idg x show False by auto
    qed
    then have "lookupEntry (rankPools fails gs2 ?db2) (entry_id (?sorted ! k))
               = lookupEntry ?db2 (entry_id (?sorted ! k))"
      by (rule lookup_rankPools_other)
    then have "storedRank (rankPools fails gs2 ?db2) (entry_id (?sorted ! k))
               = storedRank ?db2 (entry_id (?sorted ! k))"
      by (simp add: storedRank_def)
    moreover have "storedRank ?db2 (entry_id (?sorted ! k)) = Some (0 + k + 1)"
      unfolding rp using ok ds k' unfolding rp by (rule storedRank_writeRanks)
    ultimately show ?thesis
      by (simp add: final)
  qed
  with g p show ?thesis
    using that by blast
qed

section \<open>Fields a pass leaves alone\<close>

lemma statsFrame_iff:
  "statsFrame r r' \<longleftrightarrow>
     entry_id r' = entry_id r \<and> footballers r' = footballers r \<and> pool r' = pool r \<and>
     rank r' = rank r \<and> Entry.more r' = Entry.more r"
  by (cases r, cases r') (auto simp: statsFrame_def)

lemma rankFrame_iff:
  "rankFrame r r' \<longleftrightarrow>
     entry_id r' = entry_id r \<and> footballers r' = footballers r \<and> pool r' = pool r \<and>
     goals r' = goals r \<and> own_goals r' = own_goals r \<and> net_goals r' = net_goals r \<and>
     expected_goals r' = expected_goals r \<and> all_scored r' = all_scored r \<and>
     status r' = status r \<and> Entry.more r' = Entry.more r"
  by (cases r, cases r') (auto simp: rankFrame_def)

lemma statsFrame_rows_update:
  "list_all2 statsFrame (rows db) (rows (snd (prisma_entry_update fails i (Stats d) db)))"
  by (simp add: rows_update list_all2_map2 list_all2_same statsFrame_iff)

lemma rankFrame_rows_update:
  "list_all2 rankFrame (rows db) (rows (snd (prisma_entry_update fails i (Rank k) db)))"
  by (simp add: rows_update list_all2_map2 list_all2_same rankFrame_iff)

lemma statsFrame_list_trans:
  assumes "list_all2 statsFrame xs ys" and "list_all2 statsFrame ys zs"
  shows "list_all2 statsFrame xs zs"
proof (rule list_all2_trans [OF _ assms])
  show "statsFrame a b \<Longrightarrow> statsFrame b c \<Longrightarrow> statsFrame a c" for a b c
    by (simp add: statsFrame_iff)
qed

lemma rankFrame_list_trans:
  assumes "list_all2 rankFrame xs ys" and "list_all2 rankFrame ys zs"
  shows "list_all2 rankFrame xs zs"
proof (rule list_all2_trans [OF _ assms])
  show "rankFrame a b \<Longrightarrow> rankFrame b c \<Longrightarrow> rankFrame a c" for a b c
    by (simp add: rankFrame_iff)
qed

lemma statsFrame_updateEntryStatistics:
  "list_all2 statsFrame (rows db) (rows (updateEntryStatistics fails es rp db))"
proof (induction es arbitrary: db)
  case Nil
  then show ?case by (simp add: list_all2_same statsFrame_iff)
next
  case (Cons e es)
  show ?case
    unfolding updateEntryStatistics_Cons
    by (rule statsFrame_list_trans [OF statsFrame_rows_update Cons.IH])
qed

lemma rankFrame_writeRanks:
  "list_all2 rankFrame (rows db) (rows (snd (writeRanks fails i es db)))"
proof (induction es arbitrary: i db)
  case Nil
  then show ?case by (simp add: list_all2_same rankFrame_iff)
next
  case (Cons e es)
  show ?case
  proof (cases "fst (prisma_entry_update fails (entry_id e) (Rank (i + 1)) db) = None")
    case True
    then show ?thesis
      unfolding writeRanks_Cons
      using rankFrame_list_trans [OF rankFrame_rows_update Cons.IH] by simp
  next
    case False
    then show ?thesis
      unfolding writeRanks_Cons by (auto simp: rankFrame_rows_update)
  qed
qed

lemma rankFrame_rankPool:
  "list_all2 rankFrame (rows db) (rows (snd (rankPool fails g db)))"
  by (simp add: rankPool_def rankFrame_writeRanks list_all2_same rankFrame_iff
           split: list.splits option.splits)

lemma rankFrame_rankPools:
  "list_all2 rankFrame (rows db) (rows (rankPools fails gs db))"
proof (induction gs arbitrary: db)
  case Nil
  then show ?case by (simp add: list_all2_same rankFrame_iff)
next
  case (Cons a gs)
  obtain pid g where a: "a = (pid, g)" by (cases a)
  show ?case
    unfolding a rankPools_Cons
    by (rule rankFrame_list_trans [OF rankFrame_rankPool Cons.IH])
qed

lemma footballers_updateEntryStatistics:
  "map footballers (rows (updateEntryStatistics fails es rp db)) = map footballers (rows db)"
proof -
  have "list_all2 (\<lambda>r r'. footballers r' = footballers r) (rows db)
          (rows (updateEntryStatistics fails es rp db))"
    by (rule list_all2_mono [OF statsFrame_updateEntryStatistics]) (simp add: statsFrame_iff)
  then show ?thesis
    by (simp add: list_all2_conv_all_nth list_eq_iff_nth_eq)
qed

section \<open>Aggregation without failures\<close>

lemma withoutTime_applyData: "withoutTime (applyData t d r) = applyData 0 d r"
  by (cases d) (simp_all add: withoutTime_def)

lemma applyData_withoutTime: "applyData 0 d (withoutTime r) = applyData 0 d r"
  by (cases d) (simp_all add: withoutTime_def)

lemma footballers_withoutTime [simp]: "footballers (withoutTime r) = footballers r"
  by (simp add: withoutTime_def)

lemma rows_updateEntryStatistics_noFailure:
  assumes "distinct (map entry_id es)"
  shows "map withoutTime (rows (updateEntryStatistics noFailure es rp db)) =
     map (\<lambda>r. case find (\<lambda>e. entry_id e = entry_id r) es of
                 None \<Rightarrow> withoutTime r
               | Some e \<Rightarrow> applyData 0 (Stats (entryStatistics e rp)) r) (rows db)"
  using assms
proof (induction es arbitrary: db)
  case Nil
  then show ?case by simp
next
  case (Cons e es)
  let ?db1 = "snd (prisma_entry_update noFailure (entry_id e) (Stats (entryStatistics e rp)) db)"
  from Cons.prems have notin: "entry_id e \<notin> entry_id ` set es" and "distinct (map entry_id es)"
    by simp_all
  then have IH: "map withoutTime (rows (updateEntryStatistics noFailure es rp ?db1)) =
     map (\<lambda>r. case find (\<lambda>e. entry_id e = entry_id r) es of
                 None \<Rightarrow> withoutTime r
               | Some e \<Rightarrow> applyData 0 (Stats (entryStatistics e rp)) r) (rows ?db1)"
    using Cons.IH by blast
  have none: "find (\<lambda>x. entry_id x = entry_id e) es = None"
    using notin by (simp add: find_None_ids)
  show ?case
    unfolding updateEntryStatistics_Cons IH
    by (auto simp: rows_update noFailure_def none withoutTime_applyData simp del: applyData.simps)
qed

lemma find_self:
  "distinct (map entry_id rs) \<Longrightarrow> r \<in> set rs \<Longrightarrow> find (\<lambda>e. entry_id e = entry_id r) rs = Some r"
  by (induction rs) auto

lemma rows_aggregated:
  assumes "distinct (map entry_id (rows db))"
  shows "map withoutTime (rows (updateEntryStatistics noFailure (rows db) rp db)) =
           map (\<lambda>r. applyData 0 (Stats (entryStatistics r rp)) r) (rows db)"
  unfolding rows_updateEntryStatistics_noFailure [OF assms]
  by (rule map_cong) (simp_all add: find_self [OF assms])

lemma rows_aggregated_twice:
  assumes "distinct (map entry_id (rows db))"
  shows "map withoutTime (rows (updateEntryStatistics noFailure
                 (rows (updateEntryStatistics noFailure (rows db) rp db)) rp
                 (updateEntryStatistics noFailure (rows db) rp db)))
         = map withoutTime (rows (updateEntryStatistics noFailure (rows db) rp db))"
proof -
  let ?db1 = "updateEntryStatistics noFailure (rows db) rp db"
  let ?G = "\<lambda>r. applyData 0 (Stats (entryStatistics r rp)) r"
  have first: "map withoutTime (rows ?db1) = map ?G (rows db)"
    using assms by (rule rows_aggregated)
  have "distinct (map entry_id (rows ?db1))"
    using assms by (simp add: ids_updateEntryStatistics)
  then have "map withoutTime (rows (updateEntryStatistics noFailure (rows ?db1) rp ?db1))
             = map ?G (rows ?db1)"
    by (rule rows_aggregated)
  also have "\<dots> = map ?G (map withoutTime (rows ?db1))"
  proof -
    have "?G (withoutTime r) = ?G r" for r :: "'a Entry_scheme"
    proof -
      have "entryStatistics (withoutTime r) rp = entryStatistics r rp"
        by (rule entryStatistics_footballers) simp
      then show ?thesis by (simp only: applyData_withoutTime)
    qed
    then show ?thesis by (simp add: comp_def del: applyData.simps)
  qed
  also have "\<dots> = map ?G (map ?G (rows db))"
    by (simp only: first)
  also have "\<dots> = map ?G (rows db)"
  proof -
    have "?G (?G r) = ?G r" for r :: "'a Entry_scheme"
    proof -
      have "entryStatistics (?G r) rp = entryStatistics r rp"
        by (rule entryStatistics_footballers) simp
      then show ?thesis by simp
    qed
    then show ?thesis by (simp add: comp_def del: applyData.simps)
  qed
  finally show ?thesis
    by (simp only: first)
qed

section \<open>The example store\<close>

lemma example_distinct: "distinct (map entry_id exampleRows)"
  by (simp add: example_defs)

lemma example_groups: "groupEntries [] exampleRows = [(1, poolAEntries)] @ (2, poolBEntries) # []"
  by (simp add: example_defs pushEntry_def poolAEntries_def poolBEntries_def)

lemma example_poolB_ok:
  "fst (rankPool (failsOn 2) poolBEntries (rankPools (failsOn 2) [(1, poolAEntries)] exampleDb)) = None"
  by (simp add: example_defs pass_defs poolAEntries_def poolBEntries_def)

section \<open>The claims\<close>

text \<open>
  C1. The claim: in one run the ranking pass orders the entries by the \<open>goals\<close> (or
  \<open>net_goals\<close>) that the aggregation pass of the same run has just computed.
  \<^verbatim>\<open>runGame\<close> gives the array \<^verbatim>\<open>entries\<close> it loaded before aggregation to both
  passes, and aggregation writes to the store only, so the ranking pass compares the
  values loaded from the store. In the store below entry 1 has 10 stored goals and entry 2
  has 5; the statistics of the run give entry 1 one goal and entry 2 seven. After the run
  the store holds the new goals 1 and 7, and entry 1, with fewer goals, has rank 1.
\<close>

theorem ranking_reads_loaded_entries:
  "map (\<lambda>r. (entry_id r, goals r, rank r))
     (rows (runGame noFailure (Inr [1, 2]) (Inr examplePlayers) None staleDb))
   = [(1, 1, Some 1), (2, 7, Some 2)]"
  by (simp add: staleDb_def example_defs pass_defs)

text \<open>
  C2. The status in the data of an update is \<open>BUST\<close> if the computed goals exceed 21,
  otherwise \<open>ACTIVE\<close> if all matched footballers scored, otherwise \<open>SHORT\<close>, and it is
  never \<open>WINNER\<close>. In the store after the aggregation pass, whatever updates failed,
  every row is either the row as it was or has a status that follows this order from the
  goals and \<open>all_scored\<close> of the same row.
\<close>

theorem status_priority:
  "data_status (entryStatistics entry rp) =
     (if 21 < data_goals (entryStatistics entry rp) then BUST
      else if data_all_scored (entryStatistics entry rp) then ACTIVE else SHORT) \<and>
   data_status (entryStatistics entry rp) \<noteq> WINNER \<and>
   list_all2 (\<lambda>r r'. r' = r \<or>
                (status r' = (if 21 < goals r' then BUST else if all_scored r' then ACTIVE else SHORT) \<and>
                 status r' \<noteq> WINNER))
     (rows db) (rows (updateEntryStatistics fails entries rp db))"
proof (intro conjI)
  show "data_status (entryStatistics entry rp) =
     (if 21 < data_goals (entryStatistics entry rp) then BUST
      else if data_all_scored (entryStatistics entry rp) then ACTIVE else SHORT)"
    and "data_status (entryStatistics entry rp) \<noteq> WINNER"
    by (simp_all add: entryStatistics_def Let_def)
  show "list_all2 (\<lambda>r r'. r' = r \<or>
                (status r' = (if 21 < goals r' then BUST else if all_scored r' then ACTIVE else SHORT) \<and>
                 status r' \<noteq> WINNER))
     (rows db) (rows (updateEntryStatistics fails entries rp db))"
    by (rule list_all2_mono [OF rows_statistics_written])
       (auto simp: entryStatistics_def Let_def)
qed

theorem status_priority_witness:
  "data_goals (entryStatistics (storedEntry 9 [4] None 0 0) [playerStat 4 22 0 0]) = 22 \<and>
   data_status (entryStatistics (storedEntry 9 [4] None 0 0) [playerStat 4 22 0 0]) = BUST \<and>
   list_all2 (\<lambda>r r'. r' = r \<or>
                (status r' = (if 21 < goals r' then BUST else if all_scored r' then ACTIVE else SHORT) \<and>
                 status r' \<noteq> WINNER))
     (rows exampleDb)
     (rows (updateEntryStatistics (failsOn 2) exampleRows [playerStat 4 22 0 0] exampleDb))"
proof -
  note T = status_priority [of "storedEntry 9 [4] None 0 0" "[playerStat 4 22 0 0]"
      exampleDb "failsOn 2" exampleRows]
  have "data_goals (entryStatistics (storedEntry 9 [4] None 0 0) [playerStat 4 22 0 0]) = 22"
    by (simp add: example_defs run_defs)
  with T [THEN conjunct1] T [THEN conjunct2, THEN conjunct2]
  show ?thesis by simp
qed



text \<open>
  C4. For an entry whose update is not rejected, the row read back after the aggregation
  pass holds the goals and own goals computed for the entry, and its \<open>net_goals\<close> is
  their difference, for all integers (the difference is negative in the example).
\<close>

theorem net_goals_written:
  assumes "distinct (map entry_id (es1 @ entry # es2))"
    and "\<not> fails (calls db + length es1) (entry_id entry)"
    and "lookupEntry (updateEntryStatistics fails (es1 @ entry # es2) rp db) (entry_id entry) = Some r'"
  shows "goals r' = data_goals (entryStatistics entry rp) \<and>
         own_goals r' = data_own_goals (entryStatistics entry rp) \<and>
         net_goals r' = goals r' - own_goals r'"
proof -
  from assms(1) have "entry_id entry \<notin> entry_id ` set es1" and "entry_id entry \<notin> entry_id ` set es2"
    by auto
  then have "lookupEntry (updateEntryStatistics fails (es1 @ entry # es2) rp db) (entry_id entry)
      = map_option (applyData (clock db (calls db + length es1)) (Stats (entryStatistics entry rp)))
          (lookupEntry db (entry_id entry))"
    using assms(2) by (rule lookup_updateEntryStatistics_hit)
  with assms(3) obtain r t where "r' = applyData t (Stats (entryStatistics entry rp)) r"
    by auto
  then show ?thesis
    by (simp add: entryStatistics_def Let_def)
qed

theorem net_goals_written_witness:
  "\<exists>r'. lookupEntry (updateEntryStatistics (failsOn 2) exampleRows examplePlayers exampleDb) 1 = Some r' \<and>
        goals r' = 1 \<and> own_goals r' = 3 \<and> net_goals r' = - 2"
proof -
  let ?e = "storedEntry 1 [1] (Some poolA) 10 0"
  let ?es2 = "[storedEntry 2 [2] (Some poolA) 5 0, storedEntry 3 [3, 99] None 0 0,
      storedEntry 4 [2, 3] (Some poolB) 4 1, storedEntry 5 [2] (Some poolB) 6 3]"
  have rows: "exampleRows = [] @ ?e # ?es2"
    by (simp add: exampleRows_def)
  have d: "distinct (map entry_id ([] @ ?e # ?es2))"
    by (simp add: example_defs)
  have nf: "\<not> failsOn 2 (calls exampleDb + length ([] :: Entry list)) (entry_id ?e)"
    by (simp add: example_defs)
  obtain r' where l: "lookupEntry (updateEntryStatistics (failsOn 2) ([] @ ?e # ?es2) examplePlayers exampleDb)
       (entry_id ?e) = Some r'"
    by (simp add: example_defs run_defs)
  have "data_goals (entryStatistics ?e examplePlayers) = 1"
    and "data_own_goals (entryStatistics ?e examplePlayers) = 3"
    by (simp_all add: example_defs run_defs)
  with net_goals_written [OF d nf l] have "goals r' = 1 \<and> own_goals r' = 3 \<and> net_goals r' = - 2"
    by simp
  moreover have "entry_id ?e = 1" by (simp add: example_defs)
  ultimately show ?thesis using l unfolding rows [symmetric] by auto
qed

text \<open>
  C5. \<open>all_scored\<close> is true exactly when no footballer of the entry has a matching
  statistic with \<open>goals_scored = 0\<close>; when no statistic has a negative
  \<open>goals_scored\<close>, as in the data model, this is: every matched footballer has
  \<open>goals_scored > 0\<close>. Footballers without a matching statistic do not change the data
  of the update, and an entry with no matched footballer gets zero totals,
  \<open>all_scored = True\<close> and \<open>ACTIVE\<close>.
\<close>

theorem all_scored_matched_only:
  "(data_all_scored (entryStatistics entry rp) \<longleftrightarrow>
      (\<forall>f\<in>set (footballers entry). \<forall>ps.
          find (\<lambda>p. player_id p = f) rp = Some ps \<longrightarrow> goals_scored ps \<noteq> 0))
   \<and> ((\<forall>p\<in>set rp. 0 \<le> goals_scored p) \<longrightarrow>
       (data_all_scored (entryStatistics entry rp) \<longleftrightarrow>
         (\<forall>f\<in>set (footballers entry). \<forall>ps.
            find (\<lambda>p. player_id p = f) rp = Some ps \<longrightarrow> 0 < goals_scored ps)))
   \<and> entryStatistics
        (entry\<lparr>footballers := filter (\<lambda>f. f \<in> player_id ` set rp) (footballers entry)\<rparr>) rp
       = entryStatistics entry rp
   \<and> ((\<forall>f\<in>set (footballers entry). f \<notin> player_id ` set rp) \<longrightarrow>
       entryStatistics entry rp =
         \<lparr>data_goals = 0, data_own_goals = 0, data_net_goals = 0, data_expected_goals = 0,
          data_all_scored = True, data_status = ACTIVE\<rparr>)"
proof (intro conjI impI)
  let ?A = "data_all_scored (entryStatistics entry rp)"
  show ne: "?A \<longleftrightarrow> (\<forall>f\<in>set (footballers entry). \<forall>ps.
          find (\<lambda>p. player_id p = f) rp = Some ps \<longrightarrow> goals_scored ps \<noteq> 0)"
    by (simp add: entryStatistics_def Let_def allScored_sumFootballers)
  show "?A \<longleftrightarrow> (\<forall>f\<in>set (footballers entry). \<forall>ps.
          find (\<lambda>p. player_id p = f) rp = Some ps \<longrightarrow> 0 < goals_scored ps)"
    if nonneg: "\<forall>p\<in>set rp. 0 \<le> goals_scored p"
  proof -
    have "goals_scored ps \<noteq> 0 \<longleftrightarrow> 0 < goals_scored ps"
      if "find (\<lambda>p. player_id p = f) rp = Some ps" for f ps
    proof -
      from that have "ps \<in> set rp" by (auto simp: find_Some_iff in_set_conv_nth)
      with nonneg have "0 \<le> goals_scored ps" by blast
      then show ?thesis by arith
    qed
    with ne show ?thesis by blast
  qed
  show "entryStatistics
        (entry\<lparr>footballers := filter (\<lambda>f. f \<in> player_id ` set rp) (footballers entry)\<rparr>) rp
       = entryStatistics entry rp"
    by (simp add: entryStatistics_def sumFootballers_filter_matched)
  show "entryStatistics entry rp =
         \<lparr>data_goals = 0, data_own_goals = 0, data_net_goals = 0, data_expected_goals = 0,
          data_all_scored = True, data_status = ACTIVE\<rparr>"
    if "\<forall>f\<in>set (footballers entry). f \<notin> player_id ` set rp"
    using that by (simp add: entryStatistics_def sumFootballers_unmatched toFixed2_zero)
qed

theorem all_scored_matched_only_witness:
  "map goals_scored examplePlayers = [1, 7, 0] \<and>
   data_all_scored (entryStatistics (storedEntry 5 [2, 99] None 0 0) examplePlayers) \<and>
   \<not> data_all_scored (entryStatistics (storedEntry 4 [2, 3] None 0 0) examplePlayers) \<and>
   filter (\<lambda>f. f \<in> player_id ` set examplePlayers) (footballers (storedEntry 6 [98, 99] None 3 1)) = [] \<and>
   entryStatistics (storedEntry 6 [98, 99] None 3 1) examplePlayers =
     \<lparr>data_goals = 0, data_own_goals = 0, data_net_goals = 0, data_expected_goals = 0,
      data_all_scored = True, data_status = ACTIVE\<rparr>"
proof -
  have nonneg: "\<forall>p\<in>set examplePlayers. 0 \<le> goals_scored p"
    by (simp add: example_defs)
  have unmatched: "\<forall>f\<in>set (footballers (storedEntry 6 [98, 99] None 3 1)). f \<notin> player_id ` set examplePlayers"
    by (simp add: example_defs)
  have five: "\<forall>f\<in>set (footballers (storedEntry 5 [2, 99] None 0 0)). \<forall>ps.
      find (\<lambda>p. player_id p = f) examplePlayers = Some ps \<longrightarrow> 0 < goals_scored ps"
    by (simp add: example_defs)
  have four: "\<not> (\<forall>f\<in>set (footballers (storedEntry 4 [2, 3] None 0 0)). \<forall>ps.
      find (\<lambda>p. player_id p = f) examplePlayers = Some ps \<longrightarrow> 0 < goals_scored ps)"
    by (simp add: example_defs)
  note a = all_scored_matched_only [of "storedEntry 5 [2, 99] None 0 0" examplePlayers]
  note b = all_scored_matched_only [of "storedEntry 4 [2, 3] None 0 0" examplePlayers]
  note c = all_scored_matched_only [of "storedEntry 6 [98, 99] None 3 1" examplePlayers]
  from a nonneg five have "data_all_scored (entryStatistics (storedEntry 5 [2, 99] None 0 0) examplePlayers)"
    by blast
  moreover from b nonneg four
  have "\<not> data_all_scored (entryStatistics (storedEntry 4 [2, 3] None 0 0) examplePlayers)"
    by blast
  moreover from c unmatched
  have "entryStatistics (storedEntry 6 [98, 99] None 3 1) examplePlayers =
     \<lparr>data_goals = 0, data_own_goals = 0, data_net_goals = 0, data_expected_goals = 0,
      data_all_scored = True, data_status = ACTIVE\<rparr>"
    by blast
  moreover have "map goals_scored examplePlayers = [1, 7, 0]"
    by (simp add: example_defs)
  moreover have "filter (\<lambda>f. f \<in> player_id ` set examplePlayers)
      (footballers (storedEntry 6 [98, 99] None 3 1)) = []"
    by (simp add: example_defs)
  ultimately show ?thesis by simp
qed

text \<open>
  C6. Whatever the store rejects, aggregation issues one update per entry, and every
  entry whose own update is not rejected has its statistics in the store at the end of the
  pass (when the row exists): the row read back is the row as it was with the data of the
  entry's update applied at the time of that call. In the ranking pass, every pool none of whose updates is
  rejected and whose rows exist has its ranks \<open>1, ..., N\<close> in the store at the end,
  whatever happened to the pools before and after it.
\<close>

theorem failures_are_isolated:
  assumes dist: "distinct (map entry_id entries)"
  shows "calls (updateEntryStatistics fails entries rp db) = calls db + length entries \<and>
     (\<forall>es1 entry es2.
         entries = es1 @ entry # es2 \<and> \<not> fails (calls db + length es1) (entry_id entry) \<longrightarrow>
         lookupEntry (updateEntryStatistics fails entries rp db) (entry_id entry)
           = map_option (applyData (clock db (calls db + length es1)) (Stats (entryStatistics entry rp)))
               (lookupEntry db (entry_id entry))) \<and>
     (\<forall>gs1 pid g gs2.
         groupEntries [] entries = gs1 @ (pid, g) # gs2 \<and>
         (\<forall>n. \<forall>e\<in>set g. \<not> fails n (entry_id e)) \<and>
         entry_id ` set g \<subseteq> entry_id ` set (rows db) \<longrightarrow>
         (\<exists>first rest p. g = first # rest \<and> pool first = Some p \<and>
            (\<forall>k<length g.
               storedRank (updateEntryRankings fails entries db)
                 (entry_id (sortCmp (compareFn (rules_own_goals p)) g ! k)) = Some (k + 1))))"
proof (intro conjI allI impI)
  show "calls (updateEntryStatistics fails entries rp db) = calls db + length entries"
    by (rule calls_updateEntryStatistics)
next
  fix es1 entry es2
  assume a: "entries = es1 @ entry # es2 \<and> \<not> fails (calls db + length es1) (entry_id entry)"
  with dist have "entry_id entry \<notin> entry_id ` set es1" and "entry_id entry \<notin> entry_id ` set es2"
    by auto
  with a show "lookupEntry (updateEntryStatistics fails entries rp db) (entry_id entry)
           = map_option (applyData (clock db (calls db + length es1)) (Stats (entryStatistics entry rp)))
               (lookupEntry db (entry_id entry))"
    by (simp add: lookup_updateEntryStatistics_hit)
next
  fix gs1 pid g gs2
  assume a: "groupEntries [] entries = gs1 @ (pid, g) # gs2 \<and>
         (\<forall>n. \<forall>e\<in>set g. \<not> fails n (entry_id e)) \<and>
         entry_id ` set g \<subseteq> entry_id ` set (rows db)"
  let ?db1 = "rankPools fails gs1 db"
  from a have "(pid, g) \<in> set (groupEntries [] entries)" by simp
  then have ne: "g \<noteq> []" and gfil: "g = filter (inPool pid) entries"
    by (simp_all add: group_members)
  from ne obtain first rest where g: "g = first # rest"
    by (cases g) auto
  have "first \<in> set g"
    by (simp add: g)
  then have "inPool pid first"
    by (subst (asm) gfil) simp
  then obtain p where p: "pool first = Some p"
    by (auto simp: inPool_def split: option.splits)
  let ?sorted = "sortCmp (compareFn (rules_own_goals p)) g"
  have "entry_id ` set (rows ?db1) = entry_id ` set (rows db)"
    using ids_rankPools [of fails gs1 db] by (metis list.set_map)
  with a have "fst (writeRanks fails 0 ?sorted ?db1) = None"
    by (intro writeRanks_ok) (simp_all add: set_sortCmp)
  then have "fst (rankPool fails g ?db1) = None"
    by (simp add: rankPool_def g p)
  with dist a obtain first' rest' p' where "g = first' # rest'" and "pool first' = Some p'"
    and "\<forall>k<length g. storedRank (updateEntryRankings fails entries db)
             (entry_id (sortCmp (compareFn (rules_own_goals p')) g ! k)) = Some (k + 1)"
    using ranks_of_successful_pool [of entries gs1 pid g gs2 fails db] by blast
  then show "\<exists>first rest p. g = first # rest \<and> pool first = Some p \<and>
            (\<forall>k<length g.
               storedRank (updateEntryRankings fails entries db)
                 (entry_id (sortCmp (compareFn (rules_own_goals p)) g ! k)) = Some (k + 1))"
    by blast
qed

theorem failures_are_isolated_witness:
  "distinct (map entry_id exampleRows) \<and>
   failsOn 2 1 2 \<and>
   calls (updateEntryStatistics (failsOn 2) exampleRows examplePlayers exampleDb) = 5 \<and>
   map_option goals (lookupEntry (updateEntryStatistics (failsOn 2) exampleRows examplePlayers exampleDb) 2)
     = Some 5 \<and>
   map_option goals (lookupEntry (updateEntryStatistics (failsOn 2) exampleRows examplePlayers exampleDb) 4)
     = Some 7 \<and>
   storedRank (updateEntryRankings (failsOn 2) exampleRows exampleDb) 2 = None \<and>
   storedRank (updateEntryRankings (failsOn 2) exampleRows exampleDb) 4 = Some 1 \<and>
   storedRank (updateEntryRankings (failsOn 2) exampleRows exampleDb) 5 = Some 2"
proof -
  note T = failures_are_isolated [OF example_distinct, of "failsOn 2" examplePlayers exampleDb]
  let ?es1 = "[storedEntry 1 [1] (Some poolA) 10 0, storedEntry 2 [2] (Some poolA) 5 0,
      storedEntry 3 [3, 99] None 0 0]"
  let ?e = "storedEntry 4 [2, 3] (Some poolB) 4 1"
  let ?es2 = "[storedEntry 5 [2] (Some poolB) 6 3]"
  have "exampleRows = ?es1 @ ?e # ?es2 \<and> \<not> failsOn 2 (calls exampleDb + length ?es1) (entry_id ?e)"
    by (simp add: example_defs)
  then have "lookupEntry (updateEntryStatistics (failsOn 2) exampleRows examplePlayers exampleDb) (entry_id ?e)
      = map_option (applyData (clock exampleDb (calls exampleDb + length ?es1))
                      (Stats (entryStatistics ?e examplePlayers)))
          (lookupEntry exampleDb (entry_id ?e))"
    by (rule T [THEN conjunct2, THEN conjunct1, rule_format])
  then have four: "map_option goals
      (lookupEntry (updateEntryStatistics (failsOn 2) exampleRows examplePlayers exampleDb) 4) = Some 7"
    by (simp add: example_defs run_defs)
  have "groupEntries [] exampleRows = [(1, poolAEntries)] @ (2, poolBEntries) # [] \<and>
        (\<forall>n. \<forall>e\<in>set poolBEntries. \<not> failsOn 2 n (entry_id e)) \<and>
        entry_id ` set poolBEntries \<subseteq> entry_id ` set (rows exampleDb)"
    by (simp add: example_groups) (simp add: example_defs poolBEntries_def)
  then obtain first rest p where fr: "poolBEntries = first # rest" and pp: "pool first = Some p"
    and r: "\<forall>k<length poolBEntries.
               storedRank (updateEntryRankings (failsOn 2) exampleRows exampleDb)
                 (entry_id (sortCmp (compareFn (rules_own_goals p)) poolBEntries ! k)) = Some (k + 1)"
    using T [THEN conjunct2, THEN conjunct2, rule_format, of "[(1, poolAEntries)]" 2 poolBEntries "[]"]
    by blast
  from fr pp have "rules_own_goals p = True"
    by (auto simp: poolBEntries_def example_defs)
  with r have r': "\<forall>k<2. storedRank (updateEntryRankings (failsOn 2) exampleRows exampleDb)
                 (entry_id (sortCmp (compareFn True) poolBEntries ! k)) = Some (k + 1)"
    by (simp add: poolBEntries_def)
  have "storedRank (updateEntryRankings (failsOn 2) exampleRows exampleDb) 4 = Some 1"
    using r' [rule_format, of 0] by (simp add: poolBEntries_def example_defs compareFn_def)
  moreover have "storedRank (updateEntryRankings (failsOn 2) exampleRows exampleDb) 5 = Some 2"
    using r' [rule_format, of 1] by (simp add: poolBEntries_def example_defs compareFn_def)
  moreover have "storedRank (updateEntryRankings (failsOn 2) exampleRows exampleDb) 2 = None"
    by (simp add: example_defs pass_defs)
  moreover have "map_option goals
      (lookupEntry (updateEntryStatistics (failsOn 2) exampleRows examplePlayers exampleDb) 2) = Some 5"
    by (simp add: example_defs run_defs)
  moreover have "failsOn 2 1 2" by (simp add: failsOn_def)
  moreover have "calls (updateEntryStatistics (failsOn 2) exampleRows examplePlayers exampleDb) = 5"
    using T [THEN conjunct1] by (simp add: exampleDb_def exampleRows_def)
  ultimately show ?thesis
    using four example_distinct by simp
qed

text \<open>
  C7. The data of an update depends on the entry through its footballers only. Hence a
  second aggregation pass over the entries loaded again from the store issues the same
  updates, id by id, as the first, whatever the first one managed to write; and when no
  update fails and the ids are distinct, the second pass leaves every row as the first
  pass left it, in every field but the time of writing \<open>updatedAt\<close>.
\<close>

theorem aggregation_idempotent:
  "(footballers e = footballers e' \<longrightarrow> entryStatistics e rp = entryStatistics e' rp) \<and>
   map (\<lambda>x. (entry_id x, entryStatistics x rp))
       (fetchAllEntries (updateEntryStatistics fails (fetchAllEntries db) rp db))
     = map (\<lambda>x. (entry_id x, entryStatistics x rp)) (fetchAllEntries db) \<and>
   (distinct (map entry_id (rows db)) \<longrightarrow>
      map withoutTime
        (rows (updateEntryStatistics noFailure
                 (fetchAllEntries (updateEntryStatistics noFailure (fetchAllEntries db) rp db)) rp
                 (updateEntryStatistics noFailure (fetchAllEntries db) rp db)))
        = map withoutTime (rows (updateEntryStatistics noFailure (fetchAllEntries db) rp db)))"
proof (intro conjI impI)
  show "entryStatistics e rp = entryStatistics e' rp" if "footballers e = footballers e'"
    using that by (rule entryStatistics_footballers)
  let ?db1 = "updateEntryStatistics fails (rows db) rp db"
  have len: "length (rows ?db1) = length (rows db)"
    using ids_updateEntryStatistics [of fails "rows db" rp db] by (metis length_map)
  have "(entry_id (rows ?db1 ! k), entryStatistics (rows ?db1 ! k) rp)
        = (entry_id (rows db ! k), entryStatistics (rows db ! k) rp)" if "k < length (rows db)" for k
  proof -
    have "map entry_id (rows ?db1) ! k = map entry_id (rows db) ! k"
      by (simp only: ids_updateEntryStatistics)
    moreover have "map footballers (rows ?db1) ! k = map footballers (rows db) ! k"
      by (simp only: footballers_updateEntryStatistics)
    ultimately have "entry_id (rows ?db1 ! k) = entry_id (rows db ! k)"
      and "footballers (rows ?db1 ! k) = footballers (rows db ! k)"
      using that len by simp_all
    then show ?thesis
      by (simp add: entryStatistics_def)
  qed
  then show "map (\<lambda>x. (entry_id x, entryStatistics x rp))
       (fetchAllEntries (updateEntryStatistics fails (fetchAllEntries db) rp db))
     = map (\<lambda>x. (entry_id x, entryStatistics x rp)) (fetchAllEntries db)"
    unfolding fetchAllEntries_def using len by (intro nth_equalityI) simp_all
  show "map withoutTime
        (rows (updateEntryStatistics noFailure
                 (fetchAllEntries (updateEntryStatistics noFailure (fetchAllEntries db) rp db)) rp
                 (updateEntryStatistics noFailure (fetchAllEntries db) rp db)))
        = map withoutTime (rows (updateEntryStatistics noFailure (fetchAllEntries db) rp db))"
    if "distinct (map entry_id (rows db))"
    unfolding fetchAllEntries_def using that by (rule rows_aggregated_twice)
qed

theorem aggregation_idempotent_witness:
  "footballers (storedEntry 1 [1] (Some poolA) 10 0) = footballers (storedEntry 1 [1] (Some poolA) 1 3) \<and>
   entryStatistics (storedEntry 1 [1] (Some poolA) 10 0) examplePlayers
     = entryStatistics (storedEntry 1 [1] (Some poolA) 1 3) examplePlayers \<and>
   distinct (map entry_id (rows exampleDb)) \<and>
   map withoutTime
     (rows (updateEntryStatistics noFailure
           (fetchAllEntries (updateEntryStatistics noFailure (fetchAllEntries exampleDb) examplePlayers exampleDb))
           examplePlayers
           (updateEntryStatistics noFailure (fetchAllEntries exampleDb) examplePlayers exampleDb)))
     = map withoutTime
         (rows (updateEntryStatistics noFailure (fetchAllEntries exampleDb) examplePlayers exampleDb))"
proof -
  note T = aggregation_idempotent [of "storedEntry 1 [1] (Some poolA) 10 0"
      "storedEntry 1 [1] (Some poolA) 1 3" examplePlayers noFailure exampleDb]
  have f: "footballers (storedEntry 1 [1] (Some poolA) 10 0) = footballers (storedEntry 1 [1] (Some poolA) 1 3)"
    by (simp add: storedEntry_def)
  have d: "distinct (map entry_id (rows exampleDb))"
    by (simp add: example_defs)
  from T f d show ?thesis by blast
qed

text \<open>
  C8. The claim: the aggregation pass changes the six statistics fields of a row and
  nothing else, the ranking pass changes \<open>rank\<close> and nothing else. The schema declares
  \<^verbatim>\<open>updatedAt DateTime @updatedAt\<close> in \<^verbatim>\<open>model Entry\<close>, so every accepted
  \<^verbatim>\<open>prisma.entry.update\<close> of either pass also sets \<open>updatedAt\<close> to the time of the
  call. In the example store every row was last written at time 0; after the aggregation
  pass the five rows carry the times 100 to 104 of the five calls, and after the ranking
  pass the four ranked rows carry the times of theirs.
\<close>

theorem updatedAt_is_rewritten:
  "map updatedAt (rows exampleDb) = [0, 0, 0, 0, 0] \<and>
   map updatedAt (rows (updateEntryStatistics noFailure exampleRows examplePlayers exampleDb))
     = [100, 101, 102, 103, 104] \<and>
   \<not> list_all2 onlyStatsDiffer (rows exampleDb)
        (rows (updateEntryStatistics noFailure exampleRows examplePlayers exampleDb)) \<and>
   map updatedAt (rows (updateEntryRankings noFailure exampleRows exampleDb))
     = [100, 101, 0, 102, 103] \<and>
   \<not> list_all2 onlyRankDiffers (rows exampleDb)
        (rows (updateEntryRankings noFailure exampleRows exampleDb))"
proof -
  have before: "map updatedAt (rows exampleDb) = [0, 0, 0, 0, 0]"
    by (simp add: example_defs)
  have agg: "map updatedAt (rows (updateEntryStatistics noFailure exampleRows examplePlayers exampleDb))
     = [100, 101, 102, 103, 104]"
    by (simp add: example_defs run_defs)
  have rnk: "map updatedAt (rows (updateEntryRankings noFailure exampleRows exampleDb))
     = [100, 101, 0, 102, 103]"
    by (simp add: example_defs pass_defs)
  have same: "map updatedAt ys = map updatedAt xs"
    if "list_all2 onlyStatsDiffer xs ys \<or> list_all2 onlyRankDiffers xs ys"
    for xs ys :: "Entry list"
  proof -
    have "updatedAt r' = updatedAt r" if "onlyStatsDiffer r r' \<or> onlyRankDiffers r r'"
      for r r' :: Entry
      using that by (cases r, cases r') (auto simp: onlyStatsDiffer_def onlyRankDiffers_def)
    then have "list_all2 (\<lambda>r r'. updatedAt r' = updatedAt r) xs ys"
      using that by (auto elim: list_all2_mono)
    then show ?thesis
      by (simp add: list_all2_conv_all_nth list_eq_iff_nth_eq)
  qed
  have "\<not> list_all2 onlyStatsDiffer (rows exampleDb)
        (rows (updateEntryStatistics noFailure exampleRows examplePlayers exampleDb))"
    using same [of "rows exampleDb"
        "rows (updateEntryStatistics noFailure exampleRows examplePlayers exampleDb)"]
    unfolding before agg by auto
  moreover have "\<not> list_all2 onlyRankDiffers (rows exampleDb)
        (rows (updateEntryRankings noFailure exampleRows exampleDb))"
    using same [of "rows exampleDb" "rows (updateEntryRankings noFailure exampleRows exampleDb)"]
    unfolding before rnk by auto
  ultimately show ?thesis
    using before agg rnk by simp
qed

text \<open>
  C8, as the code has it: for every input and every environment, each row after the
  aggregation pass equals the row before it except for \<open>goals\<close>, \<open>own_goals\<close>,
  \<open>net_goals\<close>, \<open>expected_goals\<close>, \<open>all_scored\<close>, \<open>status\<close> and \<open>updatedAt\<close>, and
  each row after the ranking pass equals the row before it except for \<open>rank\<close> and
  \<open>updatedAt\<close>.
\<close>

theorem passes_write_their_fields_only:
  "list_all2 statsFrame (rows db) (rows (updateEntryStatistics fails entries rp db)) \<and>
   list_all2 rankFrame (rows db) (rows (updateEntryRankings fails entries' db))"
  by (simp add: statsFrame_updateEntryStatistics updateEntryRankings_def rankFrame_rankPools)

theorem passes_write_their_fields_only_witness:
  "list_all2 statsFrame (rows exampleDb)
     (rows (updateEntryStatistics (failsOn 2) exampleRows examplePlayers exampleDb)) \<and>
   list_all2 rankFrame (rows exampleDb) (rows (updateEntryRankings (failsOn 2) exampleRows exampleDb))"
  by (rule passes_write_their_fields_only)

text \<open>
  C9. A statistic whose id already occurs earlier in the list of relevant players can be
  removed from the list without changing the data computed for any entry.
\<close>

theorem first_match_only:
  "player_id p \<in> player_id ` set ps \<Longrightarrow>
   entryStatistics entry (ps @ p # qs) = entryStatistics entry (ps @ qs)"
  by (simp add: entryStatistics_def sumFootballers_later_duplicate)

theorem first_match_only_witness:
  "entryStatistics (storedEntry 1 [1] None 0 0) ([playerStat 1 1 3 0.5] @ playerStat 1 9 9 9 # [])
   = entryStatistics (storedEntry 1 [1] None 0 0) ([playerStat 1 1 3 0.5] @ [])"
proof -
  have "player_id (playerStat 1 9 9 9) \<in> player_id ` set [playerStat 1 1 3 0.5]"
    by (simp add: playerStat_def)
  then show ?thesis by (rule first_match_only)
qed

text \<open>
  C10. Under the conditions of C3, let \<open>a\<close> come before \<open>b\<close> in the input list, both
  in pool \<open>pid\<close> and with equal keys. The group is the input list filtered by the pool;
  the sort keeps the order of entries with equal keys; \<open>a\<close> gets a smaller rank than
  \<open>b\<close>, and every entry of the pool with a rank between theirs has the same key. The
  sorted group is the only sorted permutation of the group that keeps the order of equal
  keys.
\<close>

theorem ties_keep_input_order:
  assumes dist: "distinct (map entry_id entries)"
    and split: "groupEntries [] entries = gs1 @ (pid, g) # gs2"
    and ok: "fst (rankPool fails g (rankPools fails gs1 db)) = None"
    and first: "g = first # rest" and rule: "pool first = Some p"
    and order: "entries = xs @ a # ys @ b # zs"
    and ina: "inPool pid a" and inb: "inPool pid b"
    and tie: "rankKey (rules_own_goals p) a = rankKey (rules_own_goals p) b"
  shows "g = filter (inPool pid) entries \<and>
     (\<forall>k. filter (\<lambda>e. rankKey (rules_own_goals p) e = k) (sortCmp (compareFn (rules_own_goals p)) g)
          = filter (\<lambda>e. rankKey (rules_own_goals p) e = k) g) \<and>
     (\<exists>ra rb. storedRank (updateEntryRankings fails entries db) (entry_id a) = Some ra \<and>
              storedRank (updateEntryRankings fails entries db) (entry_id b) = Some rb \<and>
              ra < rb \<and>
              (\<forall>c\<in>set g. \<forall>rc.
                  storedRank (updateEntryRankings fails entries db) (entry_id c) = Some rc \<and>
                  ra \<le> rc \<and> rc \<le> rb \<longrightarrow>
                  rankKey (rules_own_goals p) c = rankKey (rules_own_goals p) a)) \<and>
     (\<forall>l. mset l = mset g \<and>
          sorted_wrt (\<lambda>x y. rankKey (rules_own_goals p) y \<le> rankKey (rules_own_goals p) x) l \<and>
          (\<forall>k. filter (\<lambda>e. rankKey (rules_own_goals p) e = k) l
               = filter (\<lambda>e. rankKey (rules_own_goals p) e = k) g) \<longrightarrow>
          sortCmp (compareFn (rules_own_goals p)) g = l)"
proof (intro conjI allI impI)
  let ?u = "rules_own_goals p"
  let ?sorted = "sortCmp (compareFn ?u) g"
  let ?db' = "updateEntryRankings fails entries db"
  have mem: "(pid, g) \<in> set (groupEntries [] entries)"
    by (simp add: split)
  then show gfil: "g = filter (inPool pid) entries"
    by (rule group_members)
  show "filter (\<lambda>e. rankKey ?u e = k) ?sorted = filter (\<lambda>e. rankKey ?u e = k) g" for k
    by (rule stable_sortCmp)
  show "?sorted = l"
    if "mset l = mset g \<and> sorted_wrt (\<lambda>x y. rankKey ?u y \<le> rankKey ?u x) l \<and>
        (\<forall>k. filter (\<lambda>e. rankKey ?u e = k) l = filter (\<lambda>e. rankKey ?u e = k) g)" for l
    using that by (intro sortCmp_unique) simp_all
  obtain first' rest' p' where "g = first' # rest'" and "pool first' = Some p'"
    and R': "\<forall>k<length g. storedRank ?db' (entry_id (sortCmp (compareFn (rules_own_goals p')) g ! k))
               = Some (k + 1)"
    using dist split ok by (rule ranks_of_successful_pool)
  with first rule have "p' = p" by simp
  with R' have R: "\<And>k. k < length ?sorted \<Longrightarrow> storedRank ?db' (entry_id (?sorted ! k)) = Some (k + 1)"
    by (simp add: length_sortCmp)
  have desc: "sorted_wrt (\<lambda>x y. rankKey ?u y \<le> rankKey ?u x) ?sorted"
    by (rule descending_sortCmp)
  obtain s1 s2 s3 where S: "?sorted = s1 @ a # s2 @ b # s3"
    using tie_order_in_sorted [OF gfil [unfolded order] ina inb tie] by blast
  define ka where "ka = length s1"
  define kb where "kb = length (s1 @ a # s2)"
  have ka: "ka < length ?sorted" "?sorted ! ka = a"
    by (simp_all add: S ka_def)
  have kb: "kb < length ?sorted" "?sorted ! kb = b"
    unfolding kb_def S by (simp_all add: nth_append)
  have lt: "ka < kb" by (simp add: ka_def kb_def)
  have key_between: "rankKey ?u c = rankKey ?u a"
    if c: "c \<in> set g" and rc: "storedRank ?db' (entry_id c) = Some rc"
      and bounds: "ka + 1 \<le> rc" "rc \<le> kb + 1" for c rc
  proof -
    from c have "c \<in> set ?sorted" by (simp add: set_sortCmp)
    then obtain kc where kc: "kc < length ?sorted" "?sorted ! kc = c"
      by (auto simp: in_set_conv_nth)
    with R [of kc] rc have "rc = kc + 1" by simp
    with bounds have le: "ka \<le> kc" "kc \<le> kb" by simp_all
    have "rankKey ?u c \<le> rankKey ?u a"
    proof (cases "ka = kc")
      case True
      with ka kc show ?thesis by simp
    next
      case False
      with le have "ka < kc" by simp
      with desc kc ka show ?thesis
        by (auto simp: sorted_wrt_iff_nth_less)
    qed
    moreover have "rankKey ?u b \<le> rankKey ?u c"
    proof (cases "kc = kb")
      case True
      with kb kc show ?thesis by simp
    next
      case False
      with le have "kc < kb" by simp
      with desc kc kb show ?thesis
        by (auto simp: sorted_wrt_iff_nth_less)
    qed
    ultimately show ?thesis using tie by simp
  qed
  have "storedRank ?db' (entry_id a) = Some (ka + 1)"
    using R [OF ka(1)] ka(2) by simp
  moreover have "storedRank ?db' (entry_id b) = Some (kb + 1)"
    using R [OF kb(1)] kb(2) by simp
  moreover have "ka + 1 < kb + 1" using lt by simp
  ultimately show "\<exists>ra rb. storedRank ?db' (entry_id a) = Some ra \<and>
              storedRank ?db' (entry_id b) = Some rb \<and> ra < rb \<and>
              (\<forall>c\<in>set g. \<forall>rc. storedRank ?db' (entry_id c) = Some rc \<and> ra \<le> rc \<and> rc \<le> rb \<longrightarrow>
                  rankKey ?u c = rankKey ?u a)"
    using key_between by blast
qed

theorem ties_keep_input_order_witness:
  "rankKey True (storedEntry 4 [2, 3] (Some poolB) 4 1) = rankKey True (storedEntry 5 [2] (Some poolB) 6 3) \<and>
   storedRank (updateEntryRankings (failsOn 2) exampleRows exampleDb) 4 = Some 1 \<and>
   storedRank (updateEntryRankings (failsOn 2) exampleRows exampleDb) 5 = Some 2"
proof -
  let ?a = "storedEntry 4 [2, 3] (Some poolB) 4 1"
  let ?b = "storedEntry 5 [2] (Some poolB) 6 3"
  let ?xs = "[storedEntry 1 [1] (Some poolA) 10 0, storedEntry 2 [2] (Some poolA) 5 0,
      storedEntry 3 [3, 99] None 0 0]"
  have g: "poolBEntries = ?a # [?b]" by (simp add: poolBEntries_def)
  have p: "pool ?a = Some poolB" by (simp add: storedEntry_def)
  have order: "exampleRows = ?xs @ ?a # [] @ ?b # []" by (simp add: exampleRows_def)
  have ina: "inPool 2 ?a" and inb: "inPool 2 ?b"
    by (simp_all add: inPool_def example_defs)
  have tie: "rankKey (rules_own_goals poolB) ?a = rankKey (rules_own_goals poolB) ?b"
    by (simp add: rankKey_def example_defs)
  note T = ties_keep_input_order [OF example_distinct example_groups example_poolB_ok g p order ina inb tie]
  from T [THEN conjunct2, THEN conjunct2, THEN conjunct1] obtain ra rb where
    ra: "storedRank (updateEntryRankings (failsOn 2) exampleRows exampleDb) (entry_id ?a) = Some ra" and
    rb: "storedRank (updateEntryRankings (failsOn 2) exampleRows exampleDb) (entry_id ?b) = Some rb" and
    "ra < rb"
    by blast
  moreover have "storedRank (updateEntryRankings (failsOn 2) exampleRows exampleDb) (entry_id ?a) = Some 1"
    and "storedRank (updateEntryRankings (failsOn 2) exampleRows exampleDb) (entry_id ?b) = Some 2"
    by (simp_all add: example_defs pass_defs)
  moreover have "entry_id ?a = 4" "entry_id ?b = 5" by (simp_all add: storedEntry_def)
  moreover have "rules_own_goals poolB = True" by (simp add: poolB_def)
  ultimately show ?thesis using tie by simp
qed

end
